theory Spec2Isabelle
  imports Main "HOL-Library.Word" "HOL-Library.List_Lexorder" "HOL-Library.Multiset"
begin

section \<open>JavaScript values\<close>

text \<open>
  A JavaScript string is a sequence of UTF-16 code units. \<open>String.prototype.trim\<close>,
  the default \<open>Array.prototype.sort\<close> and \<open>encodeURIComponent\<close> are all defined on
  code units, so a string is modelled as a list of 16-bit words; the lexicographic order
  on such lists is the order the default \<open>sort()\<close> uses. \<open>js\<close> writes an ASCII literal.
\<close>

type_synonym jsstring = "16 word list"

definition js :: "string \<Rightarrow> jsstring" where
  "js s = map of_char s"

text \<open>
  The values that reach the payment code: request fields are strings, numbers, \<open>null\<close>
  or absent (\<open>undefined\<close>); \<open>parseInt\<close> adds \<open>NaN\<close>. Numbers are the integers.
\<close>

datatype jsval = JUndefined | JNull | JNaN | JNum int | JStr jsstring

text \<open>The exceptions the modelled code can raise.\<close>

datatype error = TypeError | URIError | DbError

text \<open>
  Functions of the JavaScript runtime, of Node's \<open>crypto\<close> and of PostgreSQL that the
  repository calls but does not define. They are parameters of the model:
  \<open>md5\<close> is \<open>crypto.createHash('md5').update(str, 'utf8').digest('hex')\<close>,
  \<open>numToString\<close> is \<open>Number.prototype.toString\<close>, \<open>parseInt\<close> returns \<open>JNum\<close> or \<open>JNaN\<close>,
  \<open>parseFloatIsNaN s\<close> is \<open>isNaN(parseFloat(s))\<close>, \<open>parseFloatToFixed2 s\<close> is
  \<open>parseFloat(s).toFixed(2)\<close>, \<open>sqlLowerTrim\<close> is SQL's \<open>LOWER(TRIM(...))\<close>,
  \<open>sqlDecimal s\<close> is the value PostgreSQL stores in a \<open>decimal(10, 2)\<close> column for the text
  \<open>s\<close>, as the driver reads it back, and \<open>None\<close> when the text is no number or does not
  fit the column, so that the statement fails,
  \<open>random36 n\<close> is the \<open>n\<close>-th value of \<open>Math.random().toString(36).substr(2, 9)\<close> and
  \<open>urlSearchParams\<close> is \<open>URLSearchParams.prototype.toString\<close>.
\<close>

record ext =
  md5 :: "jsstring \<Rightarrow> jsstring"
  numToString :: "int \<Rightarrow> jsstring"
  parseInt :: "jsstring \<Rightarrow> jsval"
  parseFloatIsNaN :: "jsstring \<Rightarrow> bool"
  parseFloatToFixed2 :: "jsstring \<Rightarrow> jsstring"
  sqlLowerTrim :: "jsstring \<Rightarrow> jsstring"
  sqlDecimal :: "jsstring \<Rightarrow> jsstring option"
  random36 :: "nat \<Rightarrow> jsstring"
  urlSearchParams :: "(jsstring \<times> jsval) list \<Rightarrow> jsstring"

text \<open>JavaScript truthiness: \<open>undefined\<close>, \<open>null\<close>, \<open>NaN\<close>, \<open>0\<close> and \<open>''\<close> are falsy.\<close>

fun truthy :: "jsval \<Rightarrow> bool" where
  "truthy JUndefined = False"
| "truthy JNull = False"
| "truthy JNaN = False"
| "truthy (JNum n) = (n \<noteq> 0)"
| "truthy (JStr s) = (s \<noteq> [])"

text \<open>\<open>a || b\<close>.\<close>

definition js_or :: "jsval \<Rightarrow> jsval \<Rightarrow> jsval" where
  "js_or a b = (if truthy a then a else b)"

text \<open>\<open>String(v)\<close>, which never throws on these values.\<close>

fun js_String :: "ext \<Rightarrow> jsval \<Rightarrow> jsstring" where
  "js_String x JUndefined = js ''undefined''"
| "js_String x JNull = js ''null''"
| "js_String x JNaN = js ''NaN''"
| "js_String x (JNum n) = numToString x n"
| "js_String x (JStr s) = s"

text \<open>\<open>v.toString()\<close>: a \<open>TypeError\<close> on \<open>null\<close> and \<open>undefined\<close>.\<close>

fun js_toString :: "ext \<Rightarrow> jsval \<Rightarrow> error + jsstring" where
  "js_toString x JUndefined = Inl TypeError"
| "js_toString x JNull = Inl TypeError"
| "js_toString x v = Inr (js_String x v)"

text \<open>
  An object is the list of its own properties, keys and values; the keys of an object are
  distinct. \<open>obj_keys\<close> is \<open>Object.keys\<close> and \<open>obj_get\<close> is \<open>o[key]\<close>, \<open>undefined\<close> for a key
  the object lacks. \<open>obj_set\<close> is the assignment \<open>o[key] = v\<close> to an object created by
  \<open>{}\<close>: it replaces the value of an existing key, adds a new key, and does nothing for the
  key \<open>__proto__\<close>, whose assignment calls the setter of \<open>Object.prototype\<close> (a no-op for a
  value that is not an object). The code reads the order of the keys only through
  \<open>sort()\<close>.
\<close>

type_synonym jsobject = "(jsstring \<times> jsval) list"

definition obj_keys :: "jsobject \<Rightarrow> jsstring list" where
  "obj_keys ob = map fst ob"

definition obj_get :: "jsobject \<Rightarrow> jsstring \<Rightarrow> jsval" where
  "obj_get ob k = (case map_of ob k of None \<Rightarrow> JUndefined | Some v \<Rightarrow> v)"

fun obj_put :: "jsobject \<Rightarrow> jsstring \<Rightarrow> jsval \<Rightarrow> jsobject" where
  "obj_put [] k v = [(k, v)]"
| "obj_put (p # ps) k v = (if fst p = k then (k, v) # ps else p # obj_put ps k v)"

definition obj_set :: "jsobject \<Rightarrow> jsstring \<Rightarrow> jsval \<Rightarrow> jsobject" where
  "obj_set ob k v = (if k = js ''__proto__'' then ob else obj_put ob k v)"

text \<open>
  The objects the signature is computed from are built by an object literal or by
  assignments to \<open>{}\<close>: their keys are distinct and none is \<open>__proto__\<close>.
\<close>

definition wfObject :: "jsobject \<Rightarrow> bool" where
  "wfObject ob = (distinct (map fst ob) \<and> js ''__proto__'' \<notin> set (map fst ob))"

section \<open>Signature codec\<close>

text \<open>
  \<open>String.prototype.trim\<close> strips white space and line terminators from both ends:
  TAB, LF, VT, FF, CR, SP, NBSP, U+1680, U+2000..U+200A, U+2028, U+2029, U+202F, U+205F,
  U+3000 and U+FEFF, each one code unit.
\<close>

definition isWhiteSpace :: "16 word \<Rightarrow> bool" where
  "isWhiteSpace c =
     (let n = unat c in
        (9 \<le> n \<and> n \<le> 13) \<or> n = 32 \<or> n = 160 \<or> n = 5760 \<or> (8192 \<le> n \<and> n \<le> 8202) \<or>
        n = 8232 \<or> n = 8233 \<or> n = 8239 \<or> n = 8287 \<or> n = 12288 \<or> n = 65279)"

definition trim :: "jsstring \<Rightarrow> jsstring" where
  "trim s = rev (dropWhile isWhiteSpace (rev (dropWhile isWhiteSpace s)))"

text \<open>
  \<open>encodeURIComponent\<close> (ECMA-262, Encode with the unreserved set of URI components):
  the characters \<open>A-Z a-z 0-9 - _ . ! ~ * ' ( )\<close> are copied, every other code point is
  written as the \<open>%XX\<close> escapes of its UTF-8 octets, in upper-case hexadecimal, and a
  surrogate code unit that is not part of a pair raises \<open>URIError\<close> (\<open>None\<close>).
\<close>

definition uriUnreserved :: "16 word \<Rightarrow> bool" where
  "uriUnreserved c =
     (let n = unat c in
        (65 \<le> n \<and> n \<le> 90) \<or> (97 \<le> n \<and> n \<le> 122) \<or> (48 \<le> n \<and> n \<le> 57) \<or>
        n = 45 \<or> n = 95 \<or> n = 46 \<or> n = 33 \<or> n = 126 \<or> n = 42 \<or> n = 39 \<or> n = 40 \<or> n = 41)"

definition hexDigit :: "nat \<Rightarrow> 16 word" where
  "hexDigit d = of_nat (if d < 10 then 48 + d else 55 + d)"

definition pctOctet :: "nat \<Rightarrow> jsstring" where
  "pctOctet b = [37, hexDigit (b div 16), hexDigit (b mod 16)]"

definition utf8 :: "nat \<Rightarrow> nat list" where
  "utf8 v =
     (if v < 128 then [v]
      else if v < 2048 then [192 + v div 64, 128 + v mod 64]
      else if v < 65536 then [224 + v div 4096, 128 + (v div 64) mod 64, 128 + v mod 64]
      else [240 + v div 262144, 128 + (v div 4096) mod 64, 128 + (v div 64) mod 64,
            128 + v mod 64])"

definition pctEncode :: "nat \<Rightarrow> jsstring" where
  "pctEncode v = concat (map pctOctet (utf8 v))"

definition isHighSurrogate :: "16 word \<Rightarrow> bool" where
  "isHighSurrogate c = (55296 \<le> unat c \<and> unat c \<le> 56319)"

definition isLowSurrogate :: "16 word \<Rightarrow> bool" where
  "isLowSurrogate c = (56320 \<le> unat c \<and> unat c \<le> 57343)"

fun encodeURIComponent :: "jsstring \<Rightarrow> jsstring option" where
  "encodeURIComponent [] = Some []"
| "encodeURIComponent [c] =
     (if uriUnreserved c then Some [c]
      else if isLowSurrogate c \<or> isHighSurrogate c then None
      else Some (pctEncode (unat c)))"
| "encodeURIComponent (c # d # ds) =
     (if uriUnreserved c then map_option ((#) c) (encodeURIComponent (d # ds))
      else if isLowSurrogate c then None
      else if isHighSurrogate c then
        (if isLowSurrogate d
         then map_option ((@) (pctEncode ((unat c - 55296) * 1024 + (unat d - 56320) + 65536)))
                (encodeURIComponent ds)
         else None)
      else map_option ((@) (pctEncode (unat c))) (encodeURIComponent (d # ds)))"

text \<open>\<open>s.replace(/%20/g, '+')\<close>: every occurrence of \<open>%20\<close>, left to right.\<close>

fun replacePct20 :: "jsstring \<Rightarrow> jsstring" where
  "replacePct20 (a # b # c # cs) =
     (if a = 37 \<and> b = 50 \<and> c = 48 then 43 # replacePct20 cs
      else a # replacePct20 (b # c # cs))"
| "replacePct20 cs = cs"

text \<open>\<open>encodeURIComponent(value).replace(/%20/g, '+')\<close>.\<close>

definition encodeValue :: "jsstring \<Rightarrow> jsstring option" where
  "encodeValue s = map_option replacePct20 (encodeURIComponent s)"

text \<open>\<open>Array.prototype.join\<close>.\<close>

fun joinWith :: "jsstring \<Rightarrow> jsstring list \<Rightarrow> jsstring" where
  "joinWith sep [] = []"
| "joinWith sep [p] = p"
| "joinWith sep (p # q # ps) = p @ sep @ joinWith sep (q # ps)"

text \<open>
  \<open>generatePayFastSignature\<close>, a local constant at a time. \<open>keepParam\<close> is the test of the
  \<open>forEach\<close> over \<open>Object.keys(params)\<close> that fills \<open>filtered\<close> with
  \<open>value.toString().trim()\<close> (no kept value is \<open>null\<close> or \<open>undefined\<close>, so \<open>toString\<close>
  cannot throw).
\<close>

definition keepParam :: "jsstring \<Rightarrow> jsval \<Rightarrow> bool" where
  "keepParam key v =
     (v \<noteq> JStr [] \<and> v \<noteq> JNull \<and> v \<noteq> JUndefined \<and> key \<noteq> js ''signature'')"

definition filterStep :: "ext \<Rightarrow> jsobject \<Rightarrow> jsobject \<Rightarrow> jsstring \<Rightarrow> jsobject" where
  "filterStep x params filtered key =
     (let v = obj_get params key
      in if keepParam key v then obj_set filtered key (JStr (trim (js_String x v)))
         else filtered)"

definition filteredParams :: "ext \<Rightarrow> jsobject \<Rightarrow> jsobject" where
  "filteredParams x params = foldl (filterStep x params) [] (obj_keys params)"

definition sortedKeys :: "ext \<Rightarrow> jsobject \<Rightarrow> jsstring list" where
  "sortedKeys x params = sort (obj_keys (filteredParams x params))"

text \<open>
  One \<open>key=value\<close> piece: \<open>encodeURIComponent\<close> applies \<open>ToString\<close> to its argument.
\<close>

definition paramPiece :: "ext \<Rightarrow> jsobject \<Rightarrow> jsstring \<Rightarrow> jsstring option" where
  "paramPiece x filtered key =
     map_option (\<lambda>e. key @ js ''='' @ e) (encodeValue (js_String x (obj_get filtered key)))"

text \<open>The pieces, or \<open>None\<close> when an \<open>encodeURIComponent\<close> throws.\<close>

fun allSome :: "'a option list \<Rightarrow> 'a list option" where
  "allSome [] = Some []"
| "allSome (None # xs) = None"
| "allSome (Some y # xs) = map_option ((#) y) (allSome xs)"

definition paramPieces :: "ext \<Rightarrow> jsobject \<Rightarrow> jsstring list option" where
  "paramPieces x params = allSome (map (paramPiece x (filteredParams x params)) (sortedKeys x params))"

definition paramString :: "ext \<Rightarrow> jsobject \<Rightarrow> jsstring option" where
  "paramString x params = map_option (joinWith (js ''&'')) (paramPieces x params)"

text \<open>The passphrase is a string or \<open>undefined\<close> (\<open>None\<close>).\<close>

definition signatureString :: "ext \<Rightarrow> jsobject \<Rightarrow> jsstring option \<Rightarrow> jsstring option" where
  "signatureString x params passphrase =
     (case paramString x params of
        None \<Rightarrow> None
      | Some ps \<Rightarrow>
          (case passphrase of
             None \<Rightarrow> Some ps
           | Some pp \<Rightarrow>
               if pp \<noteq> [] \<and> trim pp \<noteq> []
               then map_option (\<lambda>e. ps @ js ''&passphrase='' @ e) (encodeValue (trim pp))
               else Some ps))"

definition generatePayFastSignature :: "ext \<Rightarrow> jsobject \<Rightarrow> jsstring option \<Rightarrow> error + jsstring" where
  "generatePayFastSignature x params passphrase =
     (case signatureString x params passphrase of
        None \<Rightarrow> Inl URIError
      | Some s \<Rightarrow> Inr (md5 x s))"

section \<open>Payment records and the database\<close>

text \<open>
  The value type of \<open>paymentStatusStore\<close>. An optional field that is absent is
  \<open>undefined\<close>. The map is keyed by whatever value the handlers pass as \<open>m_payment_id\<close>.
\<close>

datatype pstatus = pending | complete | failed | cancelled

record payment =
  p_status :: pstatus
  p_mPaymentId :: jsval
  p_pfPaymentId :: jsval
  p_amount :: jsval
  p_timestamp :: nat
  p_listingId :: jsval
  p_buyerId :: jsval
  p_sellerId :: jsval

text \<open>
  The rows of the tables \<open>store_listings\<close>, \<open>users\<close>, \<open>stores\<close>, \<open>collections\<close> and \<open>orders\<close>
  of \<open>schema.ts\<close>, with the columns the payment code reads or writes. A nullable column
  is an option, a \<open>decimal\<close> column is the string the driver returns, a timestamp is a
  number of milliseconds.
\<close>

record listing_row =
  l_id :: int
  l_storeId :: int
  l_cardName :: jsstring
  l_cardImage :: "jsstring option"
  l_price :: jsstring
  l_description :: "jsstring option"
  l_isActive :: "bool option"

record user_row =
  u_id :: jsstring
  u_name :: jsstring
  u_email :: jsstring

record store_row =
  s_id :: int
  s_userId :: jsstring
  s_storeName :: "jsstring option"
  s_totalSales :: "int option"
  s_updatedAt :: nat

record collection_row =
  c_id :: int
  c_userId :: jsstring
  c_type :: jsstring
  c_name :: jsstring
  c_description :: "jsstring option"
  c_image :: "jsstring option"
  c_cardId :: "jsstring option"
  c_set :: "jsstring option"
  c_condition :: "jsstring option"
  c_grade :: "int option"
  c_estimatedValue :: "jsstring option"
  c_purchasePrice :: "jsstring option"
  c_purchaseDate :: "nat option"
  c_notes :: "jsstring option"

record order_row =
  o_id :: int
  o_storeId :: int
  o_buyerId :: jsstring
  o_itemName :: jsstring
  o_itemImage :: "jsstring option"
  o_price :: jsstring
  o_quantity :: int
  o_status :: jsstring
  o_orderNumber :: jsstring

record database =
  listings :: "listing_row list"
  users :: "user_row list"
  stores :: "store_row list"
  collections :: "collection_row list"
  orders :: "order_row list"
  nextCollectionId :: int
  nextOrderId :: int

text \<open>
  The state of the server process: the in-memory map, the database, \<open>Date.now()\<close>, the
  number of \<open>Math.random()\<close> calls so far, and the database statements that will fail:
  the \<open>n\<close>-th statement from now throws when the \<open>n\<close>-th element of \<open>faults\<close> is \<open>True\<close>
  (a lost connection, a timeout), and leaves the database as it was.
\<close>

record sys =
  paymentStatusStore :: "jsval \<rightharpoonup> payment"
  db :: database
  clock :: nat
  rng :: nat
  faults :: "bool list"

text \<open>
  An \<open>async\<close> function body: it reads and updates the state and returns a value or throws.
  \<open>tryCatch\<close> is \<open>try { ... } catch (error) { ... }\<close>.
\<close>

type_synonym 'a io = "sys \<Rightarrow> (error + 'a) \<times> sys"

definition ret :: "'a \<Rightarrow> 'a io" where
  "ret v s = (Inr v, s)"

definition throw :: "error \<Rightarrow> 'a io" where
  "throw e s = (Inl e, s)"

definition bind :: "'a io \<Rightarrow> ('a \<Rightarrow> 'b io) \<Rightarrow> 'b io" where
  "bind m f s = (case m s of (Inl e, s') \<Rightarrow> (Inl e, s') | (Inr v, s') \<Rightarrow> f v s')"

definition tryCatch :: "'a io \<Rightarrow> (error \<Rightarrow> 'a io) \<Rightarrow> 'a io" where
  "tryCatch m h s = (case m s of (Inl e, s') \<Rightarrow> h e s' | (Inr v, s') \<Rightarrow> (Inr v, s'))"

definition liftE :: "error + 'a \<Rightarrow> 'a io" where
  "liftE r s = (r, s)"

definition dateNow :: "nat io" where
  "dateNow s = (Inr (clock s), s)"

definition mathRandom36 :: "ext \<Rightarrow> jsstring io" where
  "mathRandom36 x s = (Inr (random36 x (rng s)), s\<lparr>rng := Suc (rng s)\<rparr>)"

definition storeGet :: "jsval \<Rightarrow> payment option io" where
  "storeGet k s = (Inr (paymentStatusStore s k), s)"

definition storeSet :: "jsval \<Rightarrow> payment \<Rightarrow> unit io" where
  "storeSet k p s = (Inr (), s\<lparr>paymentStatusStore := (paymentStatusStore s)(k \<mapsto> p)\<rparr>)"

text \<open>
  One awaited database statement: a query \<open>q\<close> that returns a result and the new tables, or
  fails on the tables as they are (a value that does not fit its column, a violated
  constraint) and leaves them as they were.
\<close>

definition dbStatement :: "(database \<Rightarrow> error + 'a \<times> database) \<Rightarrow> 'a io" where
  "dbStatement q s =
     (case faults s of
        [] \<Rightarrow>
          (case q (db s) of
             Inl e \<Rightarrow> (Inl e, s)
           | Inr (r, d) \<Rightarrow> (Inr r, s\<lparr>db := d\<rparr>))
      | f # fs \<Rightarrow>
          if f then (Inl DbError, s\<lparr>faults := fs\<rparr>)
          else (case q (db s) of
                  Inl e \<Rightarrow> (Inl e, s\<lparr>faults := fs\<rparr>)
                | Inr (r, d) \<Rightarrow> (Inr r, s\<lparr>db := d, faults := fs\<rparr>)))"

definition dbSelect :: "(database \<Rightarrow> 'a) \<Rightarrow> 'a io" where
  "dbSelect q = dbStatement (\<lambda>d. Inr (q d, d))"

definition dbUpdate :: "(database \<Rightarrow> database) \<Rightarrow> unit io" where
  "dbUpdate u = dbStatement (\<lambda>d. Inr ((), u d))"

text \<open>
  A value bound to a SQL text parameter: \<open>null\<close> and \<open>undefined\<close> are \<open>NULL\<close>, which equals
  nothing. \<open>select ... limit(1)\<close> returns the first matching row of the table.
\<close>

fun sqlText :: "ext \<Rightarrow> jsval \<Rightarrow> jsstring option" where
  "sqlText x JUndefined = None"
| "sqlText x JNull = None"
| "sqlText x v = Some (js_String x v)"

text \<open>
  \<open>listingId\<close> is a number (the type of the parameter of \<open>transferCardOwnership\<close>): the
  routes look a listing up by the number kept in the map (a number of the request, or
  \<open>parseInt\<close>'s result for a string), and only when it is truthy, or by the \<open>id\<close> of a row.
\<close>

definition listingById :: "jsval \<Rightarrow> database \<Rightarrow> listing_row option" where
  "listingById lid d = find (\<lambda>l. JNum (l_id l) = lid) (listings d)"

definition userById :: "jsstring \<Rightarrow> database \<Rightarrow> user_row option" where
  "userById uid d = find (\<lambda>u. u_id u = uid) (users d)"

definition userByEmail :: "ext \<Rightarrow> jsval \<Rightarrow> database \<Rightarrow> user_row option" where
  "userByEmail x email d = find (\<lambda>u. sqlText x email = Some (u_email u)) (users d)"

definition storeByUserId :: "jsstring \<Rightarrow> database \<Rightarrow> store_row option" where
  "storeByUserId uid d = find (\<lambda>st. s_userId st = uid) (stores d)"

definition storeById :: "int \<Rightarrow> database \<Rightarrow> store_row option" where
  "storeById sid d = find (\<lambda>st. s_id st = sid) (stores d)"

definition activeListingByName :: "ext \<Rightarrow> jsval \<Rightarrow> database \<Rightarrow> listing_row option" where
  "activeListingByName x name d =
     find (\<lambda>l. sqlText x name = Some (l_cardName l) \<and> l_isActive l = Some True) (listings d)"

definition cardByExactName :: "jsstring \<Rightarrow> jsstring \<Rightarrow> database \<Rightarrow> collection_row option" where
  "cardByExactName uid name d = find (\<lambda>c. c_userId c = uid \<and> c_name c = name) (collections d)"

definition cardByLowerTrimName ::
  "ext \<Rightarrow> jsstring \<Rightarrow> jsval \<Rightarrow> database \<Rightarrow> collection_row option" where
  "cardByLowerTrimName x uid name d =
     find (\<lambda>c. c_userId c = uid \<and>
                map_option (sqlLowerTrim x) (sqlText x name) = Some (sqlLowerTrim x (c_name c)))
       (collections d)"

text \<open>
  A value bound to a \<open>decimal(10, 2)\<close> column: \<open>null\<close> and \<open>undefined\<close> are \<open>NULL\<close>, any other
  value is sent as its text and cast by PostgreSQL.
\<close>

definition sqlDecimalParam :: "ext \<Rightarrow> jsval \<Rightarrow> error + jsstring option" where
  "sqlDecimalParam x v =
     (case sqlText x v of
        None \<Rightarrow> Inr None
      | Some t \<Rightarrow> (case sqlDecimal x t of None \<Rightarrow> Inl DbError | Some p \<Rightarrow> Inr (Some p)))"

text \<open>
  \<open>insert(collections).values({..., purchasePrice: amount, ...}).returning()\<close>: the row gets
  the next \<open>id\<close> and the \<open>amount\<close> cast to \<open>decimal(10, 2)\<close>; the statement fails when the
  cast does.
\<close>

definition insertCollection ::
  "ext \<Rightarrow> jsval \<Rightarrow> collection_row \<Rightarrow> database \<Rightarrow> error + collection_row \<times> database" where
  "insertCollection x amount row d =
     (case sqlDecimalParam x amount of
        Inl e \<Rightarrow> Inl e
      | Inr price \<Rightarrow>
          Inr (row\<lparr>c_id := nextCollectionId d, c_purchasePrice := price\<rparr>,
               d\<lparr>collections :=
                   collections d @ [row\<lparr>c_id := nextCollectionId d, c_purchasePrice := price\<rparr>],
                 nextCollectionId := nextCollectionId d + 1\<rparr>))"

definition deleteCollection ::
  "int \<Rightarrow> database \<Rightarrow> error + collection_row list \<times> database" where
  "deleteCollection cid d =
     Inr (filter (\<lambda>c. c_id c = cid) (collections d),
          d\<lparr>collections := filter (\<lambda>c. c_id c \<noteq> cid) (collections d)\<rparr>)"

definition markListingSold :: "jsval \<Rightarrow> database \<Rightarrow> database" where
  "markListingSold lid d =
     d\<lparr>listings :=
         map (\<lambda>l. if JNum (l_id l) = lid then l\<lparr>l_isActive := Some False\<rparr> else l) (listings d)\<rparr>"

text \<open>
  \<open>insert(orders).values({...}).returning()\<close>: \<open>price\<close> is cast to \<open>decimal(10, 2)\<close> and
  \<open>order_number\<close> is \<open>unique\<close>; the statement fails when the cast does or when an order has
  the number already.
\<close>

definition insertOrder ::
  "ext \<Rightarrow> order_row \<Rightarrow> database \<Rightarrow> error + order_row \<times> database" where
  "insertOrder x row d =
     (case sqlDecimal x (o_price row) of
        None \<Rightarrow> Inl DbError
      | Some price \<Rightarrow>
          if o_orderNumber row \<in> o_orderNumber ` set (orders d) then Inl DbError
          else Inr (row\<lparr>o_id := nextOrderId d, o_price := price\<rparr>,
                    d\<lparr>orders := orders d @ [row\<lparr>o_id := nextOrderId d, o_price := price\<rparr>],
                      nextOrderId := nextOrderId d + 1\<rparr>))"

text \<open>
  \<open>totalSales + 1\<close> in SQL, on a 32-bit \<open>integer\<close> column: \<open>NULL + 1\<close> is \<open>NULL\<close>, and the
  statement fails (integer out of range) when a row to update holds \<open>2147483647\<close>.
\<close>

definition incrementTotalSales :: "int \<Rightarrow> nat \<Rightarrow> database \<Rightarrow> error + unit \<times> database" where
  "incrementTotalSales sid now d =
     (if \<exists>st \<in> set (stores d). s_id st = sid \<and> s_totalSales st = Some 2147483647
      then Inl DbError
      else Inr ((),
        d\<lparr>stores :=
            map (\<lambda>st. if s_id st = sid
                      then st\<lparr>s_totalSales := map_option (\<lambda>n. n + 1) (s_totalSales st),
                             s_updatedAt := now\<rparr>
                      else st) (stores d)\<rparr>))"

section \<open>Ownership transfer\<close>

text \<open>\<open>a || b\<close> on nullable strings; \<open>a || null\<close> is \<open>optOr a None\<close>.\<close>

definition optOr :: "jsstring option \<Rightarrow> jsstring option \<Rightarrow> jsstring option" where
  "optOr a b = (case a of None \<Rightarrow> b | Some s \<Rightarrow> if s \<noteq> [] then Some s else b)"

text \<open>The three lookups of the seller's card, each tried when the one before found no row.\<close>

definition findSellerCard ::
  "ext \<Rightarrow> jsstring \<Rightarrow> listing_row \<Rightarrow> jsval \<Rightarrow> collection_row option io" where
  "findSellerCard x sellerIdStr listing itemName =
     bind (dbSelect (cardByExactName sellerIdStr (l_cardName listing))) (\<lambda>exactMatch.
       case exactMatch of
         Some c \<Rightarrow> ret (Some c)
       | None \<Rightarrow>
           bind (dbSelect (cardByLowerTrimName x sellerIdStr (JStr (l_cardName listing))))
             (\<lambda>caseInsensitiveMatch.
               case caseInsensitiveMatch of
                 Some c \<Rightarrow> ret (Some c)
               | None \<Rightarrow> dbSelect (cardByLowerTrimName x sellerIdStr itemName)))"

text \<open>The template \<open>`Purchased from ${sellerStore.storeName || seller.name || 'seller'}`\<close>.\<close>

definition purchasedFrom :: "store_row \<Rightarrow> user_row \<Rightarrow> jsstring" where
  "purchasedFrom sellerStore seller =
     js ''Purchased from '' @
       (case optOr (optOr (s_storeName sellerStore) (Some (u_name seller))) None of
          None \<Rightarrow> js ''seller'' | Some n \<Rightarrow> n)"

text \<open>
  The row for the buyer: copied from the seller's card, or made from the listing. Its \<open>id\<close>
  and its \<open>purchasePrice\<close> are set by the insert.
\<close>

definition buyerCard ::
  "jsstring \<Rightarrow> listing_row \<Rightarrow> store_row \<Rightarrow> user_row \<Rightarrow> nat \<Rightarrow>
   collection_row option \<Rightarrow> collection_row" where
  "buyerCard buyerIdStr listing sellerStore seller now sellerCard =
     (case sellerCard of
        Some sc \<Rightarrow>
          \<lparr> c_id = 0, c_userId = buyerIdStr,
            c_type = (if c_type sc \<noteq> [] then c_type sc else js ''card''),
            c_name = l_cardName listing,
            c_description = optOr (optOr (c_description sc) (l_description listing)) None,
            c_image = optOr (optOr (c_image sc) (l_cardImage listing)) None,
            c_cardId = c_cardId sc, c_set = c_set sc, c_condition = c_condition sc,
            c_grade = c_grade sc, c_estimatedValue = c_estimatedValue sc,
            c_purchasePrice = None, c_purchaseDate = Some now,
            c_notes = Some (purchasedFrom sellerStore seller) \<rparr>
      | None \<Rightarrow>
          \<lparr> c_id = 0, c_userId = buyerIdStr, c_type = js ''card'',
            c_name = l_cardName listing,
            c_description = optOr (l_description listing) None,
            c_image = optOr (l_cardImage listing) None,
            c_cardId = None, c_set = None, c_condition = None, c_grade = None,
            c_estimatedValue = None,
            c_purchasePrice = None, c_purchaseDate = Some now,
            c_notes = Some (purchasedFrom sellerStore seller) \<rparr>)"

text \<open>
  \<open>orderPrice\<close>: the payment amount to two decimals, the listing's price when the amount
  does not parse.
\<close>

definition orderPrice :: "ext \<Rightarrow> jsval \<Rightarrow> listing_row \<Rightarrow> jsstring" where
  "orderPrice x amount listing =
     (let src = (if truthy amount then js_String x amount else l_price listing)
      in if parseFloatIsNaN x src then l_price listing else parseFloatToFixed2 x src)"

text \<open>
  The steps of \<open>transferCardOwnership\<close> after the four lookups: the buyer's card (and the
  removal of the seller's), the listing, the order, the sales counter.
\<close>

definition commitTransfer ::
  "ext \<Rightarrow> jsval \<Rightarrow> jsstring \<Rightarrow> jsval \<Rightarrow> listing_row \<Rightarrow> user_row \<Rightarrow> store_row \<Rightarrow>
   collection_row option \<Rightarrow> unit io" where
  "commitTransfer x listingId buyerIdStr amount listing seller sellerStore sellerCard =
     bind dateNow (\<lambda>purchaseDate.
     bind (dbStatement (insertCollection x amount
             (buyerCard buyerIdStr listing sellerStore seller purchaseDate sellerCard)))
       (\<lambda>newCard.
     bind (case sellerCard of
             Some sc \<Rightarrow> bind (dbStatement (deleteCollection (c_id sc))) (\<lambda>deleteResult. ret ())
           | None \<Rightarrow> ret ()) (\<lambda>u1.
     bind (dbUpdate (markListingSold listingId)) (\<lambda>u2.
     bind dateNow (\<lambda>now.
     bind (mathRandom36 x) (\<lambda>r.
     bind (dbStatement (insertOrder x
             \<lparr> o_id = 0, o_storeId = l_storeId listing, o_buyerId = buyerIdStr,
               o_itemName = l_cardName listing,
               o_itemImage = optOr (l_cardImage listing) None,
               o_price = orderPrice x amount listing, o_quantity = 1,
               o_status = js ''completed'',
               o_orderNumber = js ''ORD-'' @ numToString x (int now) @ js ''-'' @ r \<rparr>))
       (\<lambda>newOrder.
     bind dateNow (\<lambda>updatedAt.
       dbStatement (incrementTotalSales (l_storeId listing) updatedAt)))))))))"

definition transferCardOwnership ::
  "ext \<Rightarrow> jsval \<Rightarrow> jsval \<Rightarrow> jsval \<Rightarrow> jsval \<Rightarrow> jsval \<Rightarrow> unit io" where
  "transferCardOwnership x listingId buyerId sellerId itemName amount =
     tryCatch
       (bind (dbSelect (listingById listingId)) (\<lambda>listing.
          case listing of
            None \<Rightarrow> ret ()
          | Some listing \<Rightarrow>
              bind (dbSelect (userById (js_String x buyerId))) (\<lambda>buyer.
                case buyer of
                  None \<Rightarrow> ret ()
                | Some buyer \<Rightarrow>
                    bind (dbSelect (userById (js_String x sellerId))) (\<lambda>seller.
                      case seller of
                        None \<Rightarrow> ret ()
                      | Some seller \<Rightarrow>
                          bind (dbSelect (storeByUserId (js_String x sellerId))) (\<lambda>sellerStore.
                            case sellerStore of
                              None \<Rightarrow> ret ()
                            | Some sellerStore \<Rightarrow>
                                bind (findSellerCard x (js_String x sellerId) listing itemName)
                                  (\<lambda>sellerCard.
                                    commitTransfer x listingId (js_String x buyerId) amount
                                      listing seller sellerStore sellerCard))))))
       (\<lambda>error. ret ())"

section \<open>The payment routes\<close>

text \<open>
  \<open>PAYFAST_CONFIG\<close> and \<open>process.env.BACKEND_URL\<close>. \<open>cfg_sandboxPassphrase\<close> is
  \<open>process.env.PAYFAST_SANDBOX_PASSPHRASE || ''\<close>, so the expression
  \<open>PAYFAST_CONFIG.sandboxPassphrase || process.env.PAYFAST_SANDBOX_PASSPHRASE || ''\<close> of
  \<open>/create-payment\<close> has the same value.
\<close>

record config =
  cfg_merchantId :: jsstring
  cfg_merchantKey :: jsstring
  cfg_passphrase :: jsstring
  cfg_sandboxMerchantId :: jsstring
  cfg_sandboxMerchantKey :: jsstring
  cfg_sandboxPassphrase :: jsstring
  cfg_sandbox :: bool
  cfg_sandboxUrl :: jsstring
  cfg_productionUrl :: jsstring
  cfg_envBackendUrl :: jsval

text \<open>
  A response: the status code and what is sent. The two HTML pages of \<open>/return\<close> are
  constants; the JSON of \<open>/create-payment\<close> carries \<open>paymentUrl\<close>, \<open>paymentParams\<close> and
  \<open>mPaymentId\<close>.
\<close>

datatype rbody =
    Send jsstring
  | SuccessPage
  | CancelPage
  | JsonError jsstring
  | JsonPayment jsstring jsobject jsval

datatype response = Response nat rbody

definition okResponse :: response where
  "okResponse = Response 200 (Send (js ''OK''))"

text \<open>\<open>passphrase || undefined\<close>.\<close>

definition passOpt :: "jsstring \<Rightarrow> jsstring option" where
  "passOpt p = (if p \<noteq> [] then Some p else None)"

subsection \<open>POST /create-payment\<close>

text \<open>The request: \<open>req.body\<close>, \<open>req.protocol\<close> and \<open>req.get('host')\<close>.\<close>

record create_request =
  rq_body :: jsobject
  rq_protocol :: jsval
  rq_host :: jsval

text \<open>
  The check of \<open>returnUrl\<close> and \<open>cancelUrl\<close>: a truthy value that starts with neither
  \<open>http://\<close> nor \<open>https://\<close> becomes \<open>undefined\<close>; \<open>startsWith\<close> of a truthy value that is
  not a string is a \<open>TypeError\<close>.
\<close>

definition httpUrlOrUndefined :: "jsval \<Rightarrow> error + jsval" where
  "httpUrlOrUndefined url =
     (if truthy url then
        (case url of
           JStr s \<Rightarrow>
             if take 7 s \<noteq> js ''http://'' \<and> take 8 s \<noteq> js ''https://'' then Inr JUndefined
             else Inr url
         | _ \<Rightarrow> Inl TypeError)
      else Inr url)"

definition newPaymentId :: "ext \<Rightarrow> jsval \<Rightarrow> jsval io" where
  "newPaymentId x mPaymentId =
     (if truthy mPaymentId then ret mPaymentId
      else bind dateNow (\<lambda>now. bind (mathRandom36 x) (\<lambda>r.
             ret (JStr (js ''pf_'' @ numToString x (int now) @ js ''_'' @ r)))))"

definition resolveBackendUrl :: "ext \<Rightarrow> config \<Rightarrow> create_request \<Rightarrow> jsval" where
  "resolveBackendUrl x cfg req =
     (let backendUrl = js_or (obj_get (rq_body req) (js ''backendUrl'')) (cfg_envBackendUrl cfg);
          backendUrl =
            (if \<not> truthy backendUrl
             then JStr (js_String x (js_or (rq_protocol req) (JStr (js ''http''))) @ js ''://'' @
                        js_String x (js_or (rq_host req) (JStr (js ''localhost:3050''))))
             else backendUrl)
      in if \<not> truthy backendUrl then JStr (js ''http://localhost:3050'') else backendUrl)"

definition paymentParamsOf ::
  "ext \<Rightarrow> config \<Rightarrow> jsobject \<Rightarrow> jsval \<Rightarrow> jsval \<Rightarrow> jsval \<Rightarrow> jsval \<Rightarrow> jsobject" where
  "paymentParamsOf x cfg body backendUrl paymentId baseReturnUrl baseCancelUrl =
     [ (js ''merchant_id'',
          JStr (if cfg_sandbox cfg then cfg_sandboxMerchantId cfg else cfg_merchantId cfg)),
       (js ''merchant_key'',
          JStr (if cfg_sandbox cfg then cfg_sandboxMerchantKey cfg else cfg_merchantKey cfg)),
       (js ''return_url'', baseReturnUrl),
       (js ''cancel_url'', baseCancelUrl),
       (js ''notify_url'',
          js_or (obj_get body (js ''notifyUrl''))
            (JStr (js_String x backendUrl @ js ''/payment/itn''))),
       (js ''name_first'', js_or (obj_get body (js ''userNameFirst'')) (JStr (js ''User''))),
       (js ''name_last'', js_or (obj_get body (js ''userNameLast'')) (JStr [])),
       (js ''email_address'',
          js_or (obj_get body (js ''userEmail'')) (JStr (js ''user@example.com''))),
       (js ''cell_number'', js_or (obj_get body (js ''cellNumber'')) (JStr [])),
       (js ''m_payment_id'', paymentId),
       (js ''amount'', JStr (parseFloatToFixed2 x (js_String x (obj_get body (js ''amount''))))),
       (js ''item_name'', obj_get body (js ''itemName'')),
       (js ''item_description'',
          js_or (obj_get body (js ''itemDescription'')) (obj_get body (js ''itemName''))) ]"

text \<open>\<open>parsedListingId\<close>, and \<open>parsedBuyerId\<close> / \<open>parsedSellerId\<close>.\<close>

definition parsedListingIdOf :: "ext \<Rightarrow> jsval \<Rightarrow> jsval" where
  "parsedListingIdOf x listingId =
     (if truthy listingId
      then (case listingId of JStr s \<Rightarrow> parseInt x s | _ \<Rightarrow> listingId)
      else JUndefined)"

definition parsedUserIdOf :: "ext \<Rightarrow> jsval \<Rightarrow> jsval" where
  "parsedUserIdOf x userId = (if truthy userId then JStr (js_String x userId) else JUndefined)"

definition createPayment :: "ext \<Rightarrow> config \<Rightarrow> create_request \<Rightarrow> response io" where
  "createPayment x cfg req =
     tryCatch
       (let body = rq_body req in
        if \<not> truthy (obj_get body (js ''amount'')) \<or> \<not> truthy (obj_get body (js ''itemName''))
        then ret (Response 400 (JsonError (js ''Amount and item name are required'')))
        else
          bind (newPaymentId x (obj_get body (js ''mPaymentId''))) (\<lambda>paymentId.
          let backendUrl = resolveBackendUrl x cfg req in
          bind (liftE (httpUrlOrUndefined (obj_get body (js ''returnUrl'')))) (\<lambda>baseReturnUrl.
          bind (liftE (httpUrlOrUndefined (obj_get body (js ''cancelUrl'')))) (\<lambda>baseCancelUrl.
          let baseReturnUrl = js_or baseReturnUrl
                (JStr (js_String x backendUrl @
                       js ''/payment/return?status=success&m_payment_id='' @
                       js_String x paymentId));
              baseCancelUrl = js_or baseCancelUrl
                (JStr (js_String x backendUrl @
                       js ''/payment/return?status=cancel&m_payment_id='' @
                       js_String x paymentId));
              passphrase =
                (if cfg_sandbox cfg then cfg_sandboxPassphrase cfg else cfg_passphrase cfg);
              paymentParams =
                paymentParamsOf x cfg body backendUrl paymentId baseReturnUrl baseCancelUrl
          in
          bind (liftE (generatePayFastSignature x paymentParams (passOpt passphrase)))
            (\<lambda>signature.
          let paymentParams = obj_set paymentParams (js ''signature'') (JStr signature);
              paymentUrl = (if cfg_sandbox cfg then cfg_sandboxUrl cfg else cfg_productionUrl cfg);
              directPayFastUrl =
                paymentUrl @ js ''?'' @
                urlSearchParams x (filter (\<lambda>kv. truthy (snd kv)) paymentParams)
          in
          bind dateNow (\<lambda>now.
          bind (storeSet paymentId
                  \<lparr> p_status = pending, p_mPaymentId = paymentId, p_pfPaymentId = JUndefined,
                    p_amount = JUndefined, p_timestamp = now,
                    p_listingId = parsedListingIdOf x (obj_get body (js ''listingId'')),
                    p_buyerId = parsedUserIdOf x (obj_get body (js ''buyerId'')),
                    p_sellerId = parsedUserIdOf x (obj_get body (js ''sellerId'')) \<rparr>) (\<lambda>u.
            ret (Response 200 (JsonPayment directPayFastUrl paymentParams paymentId)))))))))
       (\<lambda>error. ret (Response 500 (JsonError (js ''Failed to create payment''))))"

subsection \<open>GET /return\<close>

text \<open>
  The body of \<open>if (status === 'success' && m_payment_id && typeof m_payment_id === 'string')\<close>.
\<close>

definition returnTransfer :: "ext \<Rightarrow> payment \<Rightarrow> unit io" where
  "returnTransfer x existingPayment =
     (if truthy (p_listingId existingPayment) \<and> truthy (p_buyerId existingPayment) \<and>
         truthy (p_sellerId existingPayment)
      then
        tryCatch
          (bind (dbSelect (listingById (p_listingId existingPayment))) (\<lambda>listing.
             case listing of
               Some l \<Rightarrow>
                 transferCardOwnership x (p_listingId existingPayment)
                   (p_buyerId existingPayment) (p_sellerId existingPayment)
                   (JStr (l_cardName l)) (js_or (p_amount existingPayment) (JStr (l_price l)))
             | None \<Rightarrow> ret ()))
          (\<lambda>error. ret ())
      else if truthy (p_listingId existingPayment)
      then tryCatch (dbUpdate (markListingSold (p_listingId existingPayment))) (\<lambda>error. ret ())
      else ret ())"

definition returnUpdate :: "ext \<Rightarrow> jsval \<Rightarrow> unit io" where
  "returnUpdate x m_payment_id =
     bind (storeGet m_payment_id) (\<lambda>existingPayment.
       case existingPayment of
         Some ep \<Rightarrow>
           if p_status ep = pending
           then
             bind dateNow (\<lambda>now.
             bind (storeSet m_payment_id (ep\<lparr>p_status := complete, p_timestamp := now\<rparr>))
               (\<lambda>u. returnTransfer x ep))
           else ret ()
       | None \<Rightarrow>
           bind dateNow (\<lambda>now.
             storeSet m_payment_id
               \<lparr> p_status = complete, p_mPaymentId = m_payment_id, p_pfPaymentId = JUndefined,
                 p_amount = JUndefined, p_timestamp = now, p_listingId = JUndefined,
                 p_buyerId = JUndefined, p_sellerId = JUndefined \<rparr>))"

fun isString :: "jsval \<Rightarrow> bool" where
  "isString (JStr s) = True"
| "isString v = False"

definition returnHandler :: "ext \<Rightarrow> jsval \<Rightarrow> jsval \<Rightarrow> response io" where
  "returnHandler x status m_payment_id =
     tryCatch
       (bind (if status = JStr (js ''success'') \<and> truthy m_payment_id \<and> isString m_payment_id
              then returnUpdate x m_payment_id else ret ()) (\<lambda>u.
          if status = JStr (js ''success'') then ret (Response 200 SuccessPage)
          else if status = JStr (js ''cancel'') then ret (Response 200 CancelPage)
          else ret (Response 400 (Send (js ''Invalid status parameter'')))))
       (\<lambda>error. ret (Response 500 (Send (js ''Error processing return''))))"

subsection \<open>POST /itn\<close>

text \<open>
  The \<open>forEach\<close> that fills \<open>verifyParams\<close>: \<open>data[key].toString()\<close> throws on \<open>null\<close>.
\<close>

fun itnVerifyParams :: "ext \<Rightarrow> jsobject \<Rightarrow> jsstring list \<Rightarrow> jsobject \<Rightarrow> error + jsobject" where
  "itnVerifyParams x data [] verifyParams = Inr verifyParams"
| "itnVerifyParams x data (key # keys) verifyParams =
     (if key \<noteq> js ''signature'' \<and> obj_get data key \<noteq> JStr []
      then (case js_toString x (obj_get data key) of
              Inl e \<Rightarrow> Inl e
            | Inr s \<Rightarrow> itnVerifyParams x data keys (obj_set verifyParams key (JStr s)))
      else itnVerifyParams x data keys verifyParams)"

text \<open>\<open>expectedSignature\<close>, with the credentials the \<open>merchant_id\<close> of the payload selects.\<close>

definition itnExpectedSignature :: "ext \<Rightarrow> config \<Rightarrow> jsobject \<Rightarrow> error + jsstring" where
  "itnExpectedSignature x cfg data =
     (case itnVerifyParams x data (obj_keys data) [] of
        Inl e \<Rightarrow> Inl e
      | Inr verifyParams \<Rightarrow>
          (let isSandbox = (obj_get data (js ''merchant_id'') = JStr (cfg_sandboxMerchantId cfg));
               merchantKey = (if isSandbox then cfg_sandboxMerchantKey cfg else cfg_merchantKey cfg);
               passphrase = (if isSandbox then cfg_sandboxPassphrase cfg else cfg_passphrase cfg);
               verifyParams = obj_set verifyParams (js ''merchant_key'') (JStr merchantKey)
           in generatePayFastSignature x verifyParams (passOpt passphrase)))"

text \<open>
  The test \<open>expectedSignature !== incomingSignature\<close> of the handler, negated: the payload
  verifies. The handler only logs a mismatch.
\<close>

definition itnSignatureVerifies :: "ext \<Rightarrow> config \<Rightarrow> jsobject \<Rightarrow> bool" where
  "itnSignatureVerifies x cfg data =
     (case itnExpectedSignature x cfg data of
        Inl e \<Rightarrow> False
      | Inr expectedSignature \<Rightarrow> JStr expectedSignature = obj_get data (js ''signature''))"

text \<open>The lookup by item name and buyer email, when the stored record lacks an id.\<close>

definition itnFallback :: "ext \<Rightarrow> jsobject \<Rightarrow> response io" where
  "itnFallback x data =
     bind (dbSelect (activeListingByName x (obj_get data (js ''item_name'')))) (\<lambda>listing.
       case listing of
         Some l \<Rightarrow>
           bind (dbSelect (storeById (l_storeId l))) (\<lambda>sellerStore.
             case sellerStore of
               None \<Rightarrow> ret okResponse
             | Some st \<Rightarrow>
                 bind (dbSelect (userByEmail x (obj_get data (js ''email_address'')))) (\<lambda>buyer.
                   case buyer of
                     None \<Rightarrow> ret okResponse
                   | Some b \<Rightarrow>
                       bind (transferCardOwnership x (JNum (l_id l)) (JStr (u_id b))
                               (JStr (s_userId st)) (obj_get data (js ''item_name''))
                               (obj_get data (js ''amount_gross'')))
                         (\<lambda>u. ret okResponse)))
       | None \<Rightarrow> ret okResponse)"

text \<open>The branch \<open>payment_status === 'COMPLETE'\<close>; \<open>storedPayment?.f\<close> is \<open>storedField f\<close>.\<close>

definition storedField :: "(payment \<Rightarrow> jsval) \<Rightarrow> payment option \<Rightarrow> jsval" where
  "storedField f storedPayment = (case storedPayment of None \<Rightarrow> JUndefined | Some p \<Rightarrow> f p)"

definition itnComplete :: "ext \<Rightarrow> jsobject \<Rightarrow> jsval \<Rightarrow> response io" where
  "itnComplete x data m_payment_id =
     bind (storeGet m_payment_id) (\<lambda>storedPayment.
     bind dateNow (\<lambda>now.
     bind (storeSet m_payment_id
             \<lparr> p_status = complete, p_mPaymentId = m_payment_id,
               p_pfPaymentId = obj_get data (js ''pf_payment_id''),
               p_amount = obj_get data (js ''amount_gross''), p_timestamp = now,
               p_listingId = storedField p_listingId storedPayment,
               p_buyerId = storedField p_buyerId storedPayment,
               p_sellerId = storedField p_sellerId storedPayment \<rparr>) (\<lambda>u.
       if truthy (storedField p_listingId storedPayment) \<and>
          truthy (storedField p_buyerId storedPayment) \<and>
          truthy (storedField p_sellerId storedPayment)
       then
         bind (transferCardOwnership x (storedField p_listingId storedPayment)
                 (storedField p_buyerId storedPayment) (storedField p_sellerId storedPayment)
                 (obj_get data (js ''item_name'')) (obj_get data (js ''amount_gross'')))
           (\<lambda>u. ret okResponse)
       else itnFallback x data)))"

definition itnFailed :: "jsval \<Rightarrow> response io" where
  "itnFailed m_payment_id =
     bind dateNow (\<lambda>now.
     bind (storeSet m_payment_id
             \<lparr> p_status = failed, p_mPaymentId = m_payment_id, p_pfPaymentId = JUndefined,
               p_amount = JUndefined, p_timestamp = now, p_listingId = JUndefined,
               p_buyerId = JUndefined, p_sellerId = JUndefined \<rparr>) (\<lambda>u. ret okResponse))"

definition itnHandler :: "ext \<Rightarrow> config \<Rightarrow> jsobject \<Rightarrow> response io" where
  "itnHandler x cfg data =
     tryCatch
       (bind (liftE (itnExpectedSignature x cfg data)) (\<lambda>expectedSignature.
          if obj_get data (js ''payment_status'') = JStr (js ''COMPLETE'')
          then itnComplete x data (obj_get data (js ''m_payment_id''))
          else if obj_get data (js ''payment_status'') = JStr (js ''FAILED'')
          then itnFailed (obj_get data (js ''m_payment_id''))
          else ret okResponse))
       (\<lambda>error. ret okResponse)"

subsection \<open>Requests in sequence\<close>

text \<open>
  The three routes that write \<open>paymentStatusStore\<close>. Each handler reads and writes the map
  before its first \<open>await\<close>, so requests that interleave at the \<open>await\<close>s update the map
  as they do when they run one after the other.
\<close>

datatype request =
    CreatePayment create_request
  | Return jsval jsval
  | Itn jsobject

fun handle :: "ext \<Rightarrow> config \<Rightarrow> request \<Rightarrow> response io" where
  "handle x cfg (CreatePayment req) = createPayment x cfg req"
| "handle x cfg (Return status m_payment_id) = returnHandler x status m_payment_id"
| "handle x cfg (Itn data) = itnHandler x cfg data"

definition step :: "ext \<Rightarrow> config \<Rightarrow> sys \<Rightarrow> request \<Rightarrow> sys" where
  "step x cfg s req = snd (handle x cfg req s)"

definition run :: "ext \<Rightarrow> config \<Rightarrow> sys \<Rightarrow> request list \<Rightarrow> sys" where
  "run x cfg s reqs = foldl (step x cfg) s reqs"

section \<open>Sample inputs\<close>

text \<open>
  A runtime to evaluate the model on concrete inputs: the digest is the identity, so that a
  signature shows the string that is hashed, numbers print as \<open>n\<close>, \<open>parseInt\<close> returns
  \<open>NaN\<close>, every string parses as the amount it shows (the samples are amounts with two
  decimals) and is stored as it is in a \<open>decimal(10, 2)\<close> column, SQL's \<open>LOWER(TRIM(...))\<close>
  is the identity, and the random strings are \<open>r\<close>, \<open>rr\<close>, \<open>rrr\<close>, ...
\<close>

definition sampleExt :: ext where
  "sampleExt =
     \<lparr> md5 = (\<lambda>s. s), numToString = (\<lambda>n. js ''n''), parseInt = (\<lambda>s. JNaN),
       parseFloatIsNaN = (\<lambda>s. False), parseFloatToFixed2 = (\<lambda>s. s),
       sqlLowerTrim = (\<lambda>s. s), sqlDecimal = (\<lambda>s. Some s),
       random36 = (\<lambda>n. replicate (Suc n) 114),
       urlSearchParams = (\<lambda>ps. []) \<rparr>"

definition keptPair :: "ext \<Rightarrow> jsstring \<times> jsval \<Rightarrow> jsstring \<times> jsval" where
  "keptPair x kv = (fst kv, JStr (trim (js_String x (snd kv))))"

text \<open>The sample configuration: the defaults of \<open>PAYFAST_CONFIG\<close>, in sandbox mode.\<close>

definition sampleCfg :: config where
  "sampleCfg =
     \<lparr> cfg_merchantId = js ''31957853'', cfg_merchantKey = js ''crrh4hjrcxuzt'',
       cfg_passphrase = js ''Shinigami2022'', cfg_sandboxMerchantId = js ''10045117'',
       cfg_sandboxMerchantKey = js ''dxv5rm6a520rb'', cfg_sandboxPassphrase = [],
       cfg_sandbox = True, cfg_sandboxUrl = js ''https://sandbox.payfast.co.za/eng/process'',
       cfg_productionUrl = js ''https://www.payfast.co.za/eng/process'',
       cfg_envBackendUrl = JUndefined \<rparr>"

text \<open>
  A sample database: listing 1 of store 10, which belongs to the seller \<open>s1\<close>, who owns the
  listed card; the buyer \<open>b1\<close>; no order yet.
\<close>

definition sampleDb :: database where
  "sampleDb =
     \<lparr> listings =
         [\<lparr> l_id = 1, l_storeId = 10, l_cardName = js ''Flareon Ex'', l_cardImage = None,
            l_price = js ''165.00'', l_description = None, l_isActive = Some True \<rparr>],
       users =
         [\<lparr> u_id = js ''b1'', u_name = js ''Buyer'', u_email = js ''b1@example.com'' \<rparr>,
          \<lparr> u_id = js ''s1'', u_name = js ''Seller'', u_email = js ''s1@example.com'' \<rparr>],
       stores =
         [\<lparr> s_id = 10, s_userId = js ''s1'', s_storeName = Some (js ''Shop''),
            s_totalSales = Some 0, s_updatedAt = 0 \<rparr>],
       collections =
         [\<lparr> c_id = 5, c_userId = js ''s1'', c_type = js ''card'', c_name = js ''Flareon Ex'',
            c_description = None, c_image = None, c_cardId = None, c_set = None,
            c_condition = None, c_grade = None, c_estimatedValue = None,
            c_purchasePrice = None, c_purchaseDate = None, c_notes = None \<rparr>],
       orders = [], nextCollectionId = 6, nextOrderId = 1 \<rparr>"

text \<open>
  A server that has just started, the request to \<open>/create-payment\<close> for listing 1 by \<open>b1\<close>
  from \<open>s1\<close> under the payment id \<open>p1\<close>, the pending record it stores, and the server state
  that holds it.
\<close>

definition sampleInit :: sys where
  "sampleInit =
     \<lparr> paymentStatusStore = Map.empty, db = sampleDb, clock = 1000, rng = 0, faults = [] \<rparr>"

definition sampleCreate :: create_request where
  "sampleCreate =
     \<lparr> rq_body =
         [(js ''amount'', JStr (js ''165.00'')), (js ''itemName'', JStr (js ''Flareon Ex'')),
          (js ''mPaymentId'', JStr (js ''p1'')), (js ''listingId'', JNum 1),
          (js ''buyerId'', JStr (js ''b1'')), (js ''sellerId'', JStr (js ''s1''))],
       rq_protocol = JStr (js ''http''), rq_host = JStr (js ''localhost:3050'') \<rparr>"

definition samplePending :: payment where
  "samplePending =
     \<lparr> p_status = pending, p_mPaymentId = JStr (js ''p1''), p_pfPaymentId = JUndefined,
       p_amount = JUndefined, p_timestamp = 1000, p_listingId = JNum 1,
       p_buyerId = JStr (js ''b1''), p_sellerId = JStr (js ''s1'') \<rparr>"

definition sampleSys :: sys where
  "sampleSys =
     \<lparr> paymentStatusStore = [JStr (js ''p1'') \<mapsto> samplePending], db = sampleDb,
       clock = 1000, rng = 0, faults = [] \<rparr>"

text \<open>Two notifications for \<open>p1\<close>, and the two browser returns.\<close>

definition sampleFailed :: jsobject where
  "sampleFailed =
     [(js ''m_payment_id'', JStr (js ''p1'')), (js ''payment_status'', JStr (js ''FAILED''))]"

definition sampleComplete :: jsobject where
  "sampleComplete =
     [(js ''m_payment_id'', JStr (js ''p1'')), (js ''payment_status'', JStr (js ''COMPLETE'')),
      (js ''pf_payment_id'', JStr (js ''1001'')), (js ''amount_gross'', JStr (js ''165.00'')),
      (js ''item_name'', JStr (js ''Flareon Ex'')),
      (js ''email_address'', JStr (js ''b1@example.com'')),
      (js ''merchant_id'', JStr (js ''10045117''))]"

definition sampleReturn :: request where
  "sampleReturn = Return (JStr (js ''success'')) (JStr (js ''p1''))"

definition sampleCancel :: request where
  "sampleCancel = Return (JStr (js ''cancel'')) (JStr (js ''p1''))"

text \<open>
  The sample database after one transfer of listing 1 to \<open>b1\<close>, and after a second one. In
  the first the seller's card 5 is replaced by the buyer's card 6; the second finds no card
  of the seller and creates card 7 from the listing.
\<close>

definition sampleCard :: "int \<Rightarrow> collection_row" where
  "sampleCard i =
     \<lparr> c_id = i, c_userId = js ''b1'', c_type = js ''card'', c_name = js ''Flareon Ex'',
       c_description = None, c_image = None, c_cardId = None, c_set = None,
       c_condition = None, c_grade = None, c_estimatedValue = None,
       c_purchasePrice = Some (js ''165.00''), c_purchaseDate = Some 1000,
       c_notes = Some (js ''Purchased from Shop'') \<rparr>"

definition sampleOrder :: "int \<Rightarrow> jsstring \<Rightarrow> order_row" where
  "sampleOrder i n =
     \<lparr> o_id = i, o_storeId = 10, o_buyerId = js ''b1'', o_itemName = js ''Flareon Ex'',
       o_itemImage = None, o_price = js ''165.00'', o_quantity = 1,
       o_status = js ''completed'', o_orderNumber = n \<rparr>"

definition sampleDb1 :: database where
  "sampleDb1 =
     \<lparr> listings =
         [\<lparr> l_id = 1, l_storeId = 10, l_cardName = js ''Flareon Ex'', l_cardImage = None,
            l_price = js ''165.00'', l_description = None, l_isActive = Some False \<rparr>],
       users = users sampleDb,
       stores =
         [\<lparr> s_id = 10, s_userId = js ''s1'', s_storeName = Some (js ''Shop''),
            s_totalSales = Some 1, s_updatedAt = 1000 \<rparr>],
       collections = [sampleCard 6],
       orders = [sampleOrder 1 (js ''ORD-n-r'')],
       nextCollectionId = 7, nextOrderId = 2 \<rparr>"

definition sampleDb2 :: database where
  "sampleDb2 =
     \<lparr> listings = listings sampleDb1,
       users = users sampleDb,
       stores =
         [\<lparr> s_id = 10, s_userId = js ''s1'', s_storeName = Some (js ''Shop''),
            s_totalSales = Some 2, s_updatedAt = 1000 \<rparr>],
       collections = [sampleCard 6, sampleCard 7],
       orders = [sampleOrder 1 (js ''ORD-n-r''), sampleOrder 2 (js ''ORD-n-rr'')],
       nextCollectionId = 8, nextOrderId = 3 \<rparr>"

text \<open>
  The record of \<open>p1\<close> after the browser return and after a \<open>COMPLETE\<close> notification, and the
  server state with a given record of \<open>p1\<close>, database and number of \<open>Math.random()\<close> calls.
\<close>

definition sampleReturned :: payment where
  "sampleReturned = samplePending\<lparr>p_status := complete\<rparr>"

definition sampleNotified :: payment where
  "sampleNotified =
     samplePending\<lparr>p_status := complete, p_pfPaymentId := JStr (js ''1001''),
                   p_amount := JStr (js ''165.00'')\<rparr>"

definition sampleAfter :: "payment \<Rightarrow> database \<Rightarrow> nat \<Rightarrow> sys" where
  "sampleAfter r d n =
     \<lparr> paymentStatusStore = [JStr (js ''p1'') \<mapsto> r], db = d, clock = 1000, rng = n,
       faults = [] \<rparr>"

section \<open>Predicates on handlers\<close>

text \<open>A handler body that, when it returns, returns the acknowledgement \<open>200 OK\<close>.\<close>

definition okOrThrows :: "response io \<Rightarrow> bool" where
  "okOrThrows m = (\<forall>s. case fst (m s) of Inl e \<Rightarrow> True | Inr r \<Rightarrow> r = okResponse)"

text \<open>A computation that leaves the in-memory map and the clock as they are.\<close>

definition keepsMem :: "'a io \<Rightarrow> bool" where
  "keepsMem m =
     (\<forall>s. paymentStatusStore (snd (m s)) = paymentStatusStore s \<and> clock (snd (m s)) = clock s)"

text \<open>A computation that leaves the in-memory map as it is or writes one record that satisfies \<open>P\<close>.\<close>

definition writesOnly :: "(payment \<Rightarrow> bool) \<Rightarrow> 'a io \<Rightarrow> bool" where
  "writesOnly P m =
     (\<forall>s. paymentStatusStore (snd (m s)) = paymentStatusStore s \<or>
          (\<exists>k r. paymentStatusStore (snd (m s)) = (paymentStatusStore s)(k \<mapsto> r) \<and> P r))"

text \<open>The record \<open>/return\<close> creates for an unknown payment id.\<close>

definition bareComplete :: "jsval \<Rightarrow> nat \<Rightarrow> payment" where
  "bareComplete k now =
     \<lparr> p_status = complete, p_mPaymentId = k, p_pfPaymentId = JUndefined,
       p_amount = JUndefined, p_timestamp = now, p_listingId = JUndefined,
       p_buyerId = JUndefined, p_sellerId = JUndefined \<rparr>"

text \<open>The condition under which \<open>/return\<close> looks at the map.\<close>

definition returnUpdates :: "jsval \<Rightarrow> jsval \<Rightarrow> bool" where
  "returnUpdates status m_payment_id =
     (status = JStr (js ''success'') \<and> truthy m_payment_id \<and> isString m_payment_id)"

text \<open>The records the two branches of \<open>/itn\<close> write.\<close>

definition itnCompleteRecord :: "jsobject \<Rightarrow> jsval \<Rightarrow> nat \<Rightarrow> payment option \<Rightarrow> payment" where
  "itnCompleteRecord data k now storedPayment =
     \<lparr> p_status = complete, p_mPaymentId = k,
       p_pfPaymentId = obj_get data (js ''pf_payment_id''),
       p_amount = obj_get data (js ''amount_gross''), p_timestamp = now,
       p_listingId = storedField p_listingId storedPayment,
       p_buyerId = storedField p_buyerId storedPayment,
       p_sellerId = storedField p_sellerId storedPayment \<rparr>"

definition itnFailedRecord :: "jsval \<Rightarrow> nat \<Rightarrow> payment" where
  "itnFailedRecord k now =
     \<lparr> p_status = failed, p_mPaymentId = k, p_pfPaymentId = JUndefined,
       p_amount = JUndefined, p_timestamp = now, p_listingId = JUndefined,
       p_buyerId = JUndefined, p_sellerId = JUndefined \<rparr>"

section \<open>Auxiliary definitions for the signature codec\<close>

text \<open>The inverse of \<open>replacePct20\<close> on a string without \<open>+\<close>.\<close>

definition unreplacePlus :: "jsstring \<Rightarrow> jsstring" where
  "unreplacePlus s = concat (map (\<lambda>c. if c = 43 then [37, 50, 48] else [c]) s)"

text \<open>
  The code points of a string, as \<open>encodeURIComponent\<close> reads them: a surrogate pair is one
  code point, a lone surrogate is an error. \<open>encodeCodePoint\<close> is what it writes for one code
  point.
\<close>

fun codePoints :: "jsstring \<Rightarrow> nat list option" where
  "codePoints [] = Some []"
| "codePoints [c] = (if isLowSurrogate c \<or> isHighSurrogate c then None else Some [unat c])"
| "codePoints (c # d # ds) =
     (if isLowSurrogate c then None
      else if isHighSurrogate c then
        (if isLowSurrogate d
         then map_option ((#) ((unat c - 55296) * 1024 + (unat d - 56320) + 65536))
                (codePoints ds)
         else None)
      else map_option ((#) (unat c)) (codePoints (d # ds)))"

definition encodeCodePoint :: "nat \<Rightarrow> jsstring" where
  "encodeCodePoint v = (if uriUnreserved (of_nat v) \<and> v < 128 then [of_nat v] else pctEncode v)"

text \<open>The number of octets of a code point in UTF-8.\<close>

definition utf8Class :: "nat \<Rightarrow> nat" where
  "utf8Class v = (if v < 128 then 1 else if v < 2048 then 2 else if v < 65536 then 3 else 4)"

text \<open>The parameter object with the value of the field \<open>k\<close> replaced by the string \<open>v\<close>.\<close>

definition withValue :: "jsobject \<Rightarrow> jsstring \<Rightarrow> jsstring \<Rightarrow> jsobject" where
  "withValue params k v = map (\<lambda>kv. if fst kv = k then (k, JStr v) else kv) params"

text \<open>The parameter object without the field \<open>k\<close>.\<close>

definition withoutField :: "jsobject \<Rightarrow> jsstring \<Rightarrow> jsobject" where
  "withoutField params k = filter (\<lambda>kv. fst kv \<noteq> k) params"

text \<open>What \<open>signatureString\<close> appends to \<open>paramString\<close> for a passphrase.\<close>

definition passSuffix :: "jsstring option \<Rightarrow> jsstring" where
  "passSuffix passphrase =
     (case passphrase of
        None \<Rightarrow> []
      | Some pp \<Rightarrow>
          if pp \<noteq> [] \<and> trim pp \<noteq> []
          then (case encodeValue (trim pp) of None \<Rightarrow> [] | Some e \<Rightarrow> js ''&passphrase='' @ e)
          else [])"

text \<open>The test of the \<open>forEach\<close> that fills \<open>verifyParams\<close>, on a property of the payload.\<close>

definition verifiable :: "jsstring \<times> jsval \<Rightarrow> bool" where
  "verifiable kv = (fst kv \<noteq> js ''signature'' \<and> snd kv \<noteq> JStr [])"

text \<open>
  The merchant key and the passphrase that \<open>/itn\<close> resolves from the \<open>merchant_id\<close> of a
  payload (\<open>merchantKey\<close> and \<open>passphrase || undefined\<close> in the handler).
\<close>

definition itnMerchantKey :: "config \<Rightarrow> jsobject \<Rightarrow> jsstring" where
  "itnMerchantKey cfg data =
     (if obj_get data (js ''merchant_id'') = JStr (cfg_sandboxMerchantId cfg)
      then cfg_sandboxMerchantKey cfg else cfg_merchantKey cfg)"

definition itnPassphrase :: "config \<Rightarrow> jsobject \<Rightarrow> jsstring option" where
  "itnPassphrase cfg data =
     passOpt (if obj_get data (js ''merchant_id'') = JStr (cfg_sandboxMerchantId cfg)
              then cfg_sandboxPassphrase cfg else cfg_passphrase cfg)"



section \<open>Properties of the signature codec\<close>

text \<open>The definitions that evaluate a signature on a concrete object.\<close>

lemmas codec_eval = generatePayFastSignature_def signatureString_def paramString_def
  paramPieces_def paramPiece_def sortedKeys_def filteredParams_def filterStep_def keepParam_def
  obj_set_def obj_get_def obj_keys_def encodeValue_def uriUnreserved_def isLowSurrogate_def
  isHighSurrogate_def pctEncode_def utf8_def pctOctet_def hexDigit_def trim_def isWhiteSpace_def
  js_def sampleExt_def

lemma obj_put_fresh: "k \<notin> fst ` set ob \<Longrightarrow> obj_put ob k v = ob @ [(k, v)]"
  by (induction ob) auto

lemma obj_get_mem: "distinct (map fst ob) \<Longrightarrow> (k, v) \<in> set ob \<Longrightarrow> obj_get ob k = v"
  by (simp add: obj_get_def)

lemma foldl_filterStep:
  "distinct (map fst ps) \<Longrightarrow> js ''__proto__'' \<notin> fst ` set ps \<Longrightarrow>
   fst ` set acc \<inter> fst ` set ps = {} \<Longrightarrow>
   (\<And>k v. (k, v) \<in> set ps \<Longrightarrow> obj_get P k = v) \<Longrightarrow>
   foldl (filterStep x P) acc (map fst ps) =
     acc @ map (keptPair x) (filter (\<lambda>kv. keepParam (fst kv) (snd kv)) ps)"
proof (induction ps arbitrary: acc)
  case Nil
  then show ?case by simp
next
  case (Cons p ps)
  obtain k v where p: "p = (k, v)" by (cases p)
  have g: "obj_get P k = v" using Cons.prems(4) p by simp
  have kp: "k \<noteq> js ''__proto__''" using Cons.prems(2) p by auto
  have fresh: "k \<notin> fst ` set acc" using Cons.prems(3) p by auto
  let ?acc' = "filterStep x P acc k"
  have acc': "?acc' = (if keepParam k v then acc @ [keptPair x (k, v)] else acc)"
    using g kp fresh by (simp add: filterStep_def obj_set_def obj_put_fresh keptPair_def)
  have disj: "fst ` set ?acc' \<inter> fst ` set ps = {}"
    using Cons.prems(1,3) p by (auto simp: acc' keptPair_def)
  have "foldl (filterStep x P) ?acc' (map fst ps) =
      ?acc' @ map (keptPair x) (filter (\<lambda>kv. keepParam (fst kv) (snd kv)) ps)"
    using Cons.prems by (intro Cons.IH disj) auto
  then show ?case by (simp add: p acc')
qed

lemma filteredParams_wf:
  assumes "wfObject params"
  shows "filteredParams x params =
     map (keptPair x) (filter (\<lambda>kv. keepParam (fst kv) (snd kv)) params)"
proof -
  have "foldl (filterStep x params) [] (map fst params) =
     [] @ map (keptPair x) (filter (\<lambda>kv. keepParam (fst kv) (snd kv)) params)"
    using assms by (intro foldl_filterStep) (auto simp: wfObject_def obj_get_def)
  then show ?thesis by (simp add: filteredParams_def obj_keys_def)
qed

lemma filteredParams_keys:
  "wfObject params \<Longrightarrow> obj_keys (filteredParams x params) =
     map fst (filter (\<lambda>kv. keepParam (fst kv) (snd kv)) params)"
  by (simp add: filteredParams_wf obj_keys_def keptPair_def comp_def)

lemma filteredParams_distinct:
  "wfObject params \<Longrightarrow> distinct (map fst (filteredParams x params))"
  using filteredParams_keys [of params x]
  by (simp add: obj_keys_def wfObject_def distinct_map_filter)

lemma wfObject_perm: "mset qs = mset ps \<Longrightarrow> wfObject qs = wfObject ps"
proof -
  assume a: "mset qs = mset ps"
  then have "mset (map fst qs) = mset (map fst ps)" by simp
  then have "distinct (map fst qs) = distinct (map fst ps)" "set (map fst qs) = set (map fst ps)"
    by (metis mset_eq_imp_distinct_iff, metis mset_eq_setD)
  then show ?thesis by (simp add: wfObject_def)
qed

lemma filteredParams_perm:
  assumes "wfObject ps" "mset qs = mset ps"
  shows "mset (filteredParams x qs) = mset (filteredParams x ps)"
proof -
  have "wfObject qs" using assms wfObject_perm by blast
  then show ?thesis using assms by (simp add: filteredParams_wf mset_filter)
qed

lemma obj_get_cong:
  assumes "distinct (map fst a)" "distinct (map fst b)" "set a = set b"
  shows "obj_get a k = obj_get b k"
proof -
  have "map_of a = map_of b" using assms by (rule map_of_inject_set [THEN iffD2])
  then show ?thesis by (simp add: obj_get_def)
qed

text \<open>
  C6: the digest does not depend on the order of the fields of the parameter object. A
  reordering of an object is a list of the same properties (\<open>mset qs = mset ps\<close>); the
  result is the same also when the signature cannot be computed (\<open>URIError\<close>).
\<close>

theorem signature_order_independent:
  assumes wf: "wfObject ps" and perm: "mset qs = mset ps"
  shows "generatePayFastSignature x qs pass = generatePayFastSignature x ps pass"
proof -
  have wfq: "wfObject qs" using wf perm wfObject_perm by blast
  have m: "mset (filteredParams x qs) = mset (filteredParams x ps)"
    using wf perm by (rule filteredParams_perm)
  have keys: "sortedKeys x qs = sortedKeys x ps"
  proof -
    have "mset (map fst (filteredParams x qs)) = mset (map fst (filteredParams x ps))"
      using m by simp
    then show ?thesis unfolding sortedKeys_def obj_keys_def
      by (metis mset_sort sorted_sort properties_for_sort)
  qed
  have get: "obj_get (filteredParams x qs) k = obj_get (filteredParams x ps) k" for k
    using filteredParams_distinct [OF wfq] filteredParams_distinct [OF wf] m
    by (intro obj_get_cong) (auto dest: mset_eq_setD)
  have "paramPiece x (filteredParams x qs) = paramPiece x (filteredParams x ps)"
    by (rule ext) (simp add: paramPiece_def get)
  then have "paramPieces x qs = paramPieces x ps"
    by (simp add: paramPieces_def keys)
  then show ?thesis
    by (simp add: generatePayFastSignature_def signatureString_def paramString_def)
qed


theorem signature_order_independent_witness:
  "wfObject [(js ''a'', JStr (js ''1'')), (js ''b'', JStr (js ''2 3''))] \<and>
   mset [(js ''b'', JStr (js ''2 3'')), (js ''a'', JStr (js ''1''))] =
     mset [(js ''a'', JStr (js ''1'')), (js ''b'', JStr (js ''2 3''))] \<and>
   generatePayFastSignature sampleExt [(js ''b'', JStr (js ''2 3'')), (js ''a'', JStr (js ''1''))] None =
     generatePayFastSignature sampleExt [(js ''a'', JStr (js ''1'')), (js ''b'', JStr (js ''2 3''))] None \<and>
   generatePayFastSignature sampleExt [(js ''a'', JStr (js ''1'')), (js ''b'', JStr (js ''2 3''))] None =
     Inr (js ''a=1&b=2+3'')"
proof -
  let ?ps = "[(js ''a'', JStr (js ''1'')), (js ''b'', JStr (js ''2 3''))]"
  let ?qs = "[(js ''b'', JStr (js ''2 3'')), (js ''a'', JStr (js ''1''))]"
  have wf: "wfObject ?ps" by (simp add: wfObject_def js_def)
  have perm: "mset ?qs = mset ?ps" by (simp add: add.commute)
  have val: "generatePayFastSignature sampleExt ?ps None = Inr (js ''a=1&b=2+3'')"
    by (simp add: codec_eval)
  show ?thesis
    using wf perm val signature_order_independent [OF wf perm, of sampleExt None] by simp
qed

section \<open>Properties of the notification handler\<close>

lemma okOrThrows_ret: "okOrThrows (ret okResponse)"
  by (simp add: okOrThrows_def ret_def)

lemma okOrThrows_bind:
  assumes "\<And>v. okOrThrows (f v)"
  shows "okOrThrows (bind m f)"
  unfolding okOrThrows_def
proof
  fix s
  obtain r s' where ms: "m s = (r, s')" by (cases "m s")
  show "case fst (bind m f s) of Inl e \<Rightarrow> True | Inr r \<Rightarrow> r = okResponse"
  proof (cases r)
    case (Inl e)
    then show ?thesis by (simp add: bind_def ms)
  next
    case (Inr v)
    then show ?thesis using assms [of v] by (simp add: bind_def ms okOrThrows_def)
  qed
qed

lemma okOrThrows_itnFallback: "okOrThrows (itnFallback x data)"
  unfolding itnFallback_def
  by (intro okOrThrows_bind) (auto intro!: okOrThrows_bind okOrThrows_ret split: option.splits)

lemma okOrThrows_itnComplete: "okOrThrows (itnComplete x data k)"
  unfolding itnComplete_def
  by (intro okOrThrows_bind) (auto intro!: okOrThrows_bind okOrThrows_ret okOrThrows_itnFallback)

lemma okOrThrows_itnFailed: "okOrThrows (itnFailed k)"
  unfolding itnFailed_def
  by (intro okOrThrows_bind okOrThrows_ret)

lemma tryCatch_ok: "okOrThrows m \<Longrightarrow> fst (tryCatch m (\<lambda>e. ret okResponse) s) = Inr okResponse"
  by (auto simp: okOrThrows_def tryCatch_def ret_def split: prod.splits sum.splits dest: spec [of _ s])

text \<open>
  C5: the notification handler answers every payload, in every state, with \<open>200 OK\<close>:
  whatever the signature, the reported status and the stored record, whichever lookup
  finds no row, and when a \<open>toString\<close>, the signature computation or a database statement
  throws.
\<close>

theorem itn_always_acknowledges:
  "fst (itnHandler x cfg data s) = Inr (Response 200 (Send (js ''OK'')))"
proof -
  have "okOrThrows (bind (liftE (itnExpectedSignature x cfg data)) (\<lambda>expectedSignature.
          if obj_get data (js ''payment_status'') = JStr (js ''COMPLETE'')
          then itnComplete x data (obj_get data (js ''m_payment_id''))
          else if obj_get data (js ''payment_status'') = JStr (js ''FAILED'')
          then itnFailed (obj_get data (js ''m_payment_id''))
          else ret okResponse))"
    by (intro okOrThrows_bind) (simp add: okOrThrows_itnComplete okOrThrows_itnFailed okOrThrows_ret)
  then have "fst (itnHandler x cfg data s) = Inr okResponse"
    unfolding itnHandler_def by (rule tryCatch_ok)
  then show ?thesis by (simp only: okResponse_def simp_thms)
qed

section \<open>Properties of the ownership transfer\<close>

lemma listingById_None:
  "\<forall>l \<in> set (listings d). JNum (l_id l) \<noteq> listingId \<Longrightarrow> listingById listingId d = None"
  by (simp add: listingById_def find_None_iff)

text \<open>
  C8: when no listing has the given id, \<open>transferCardOwnership\<close> returns after the listing
  lookup. The only statement it runs is that lookup (one element of \<open>faults\<close> is used up,
  whether the lookup throws or finds no row): the tables are as before, so no card is
  created or deleted, no listing deactivated, no order created and no sales counter
  incremented, and the in-memory map is as before.
\<close>

theorem transfer_listing_not_found:
  assumes "\<forall>l \<in> set (listings (db s)). JNum (l_id l) \<noteq> listingId"
  shows "transferCardOwnership x listingId buyerId sellerId itemName amount s =
           (Inr (), s\<lparr>faults := tl (faults s)\<rparr>) \<and>
         db (snd (transferCardOwnership x listingId buyerId sellerId itemName amount s)) = db s"
proof -
  have none: "listingById listingId (db s) = None"
    using assms by (rule listingById_None)
  have "transferCardOwnership x listingId buyerId sellerId itemName amount s =
           (Inr (), s\<lparr>faults := tl (faults s)\<rparr>)"
    using none
    by (cases "faults s")
       (simp_all add: transferCardOwnership_def tryCatch_def bind_def dbSelect_def
          dbStatement_def ret_def)
  then show ?thesis by simp
qed

theorem transfer_listing_not_found_witness:
  "transferCardOwnership sampleExt (JNum 2) (JStr (js ''b1'')) (JStr (js ''s1''))
       (JStr (js ''Flareon Ex'')) (JStr (js ''165.00'')) sampleSys =
     (Inr (), sampleSys) \<and>
   map l_id (listings (db sampleSys)) = [1]"
proof -
  have h: "\<forall>l \<in> set (listings (db sampleSys)). JNum (l_id l) \<noteq> JNum 2"
    by (simp add: sampleSys_def sampleDb_def)
  have e: "sampleSys\<lparr>faults := tl (faults sampleSys)\<rparr> = sampleSys"
    by (simp add: sampleSys_def)
  show ?thesis
    using h e transfer_listing_not_found [OF h, of sampleExt "JStr (js ''b1'')"
        "JStr (js ''s1'')" "JStr (js ''Flareon Ex'')" "JStr (js ''165.00'')"]
    by (simp add: sampleSys_def sampleDb_def)
qed

section \<open>Properties of payment initiation\<close>

text \<open>
  C7: a request to \<open>/create-payment\<close> whose body lacks \<open>amount\<close> or \<open>itemName\<close> is answered
  with status 400, and the server state is as before: no record is stored.
\<close>

theorem create_payment_rejects_missing:
  assumes "map_of (rq_body req) (js ''amount'') = None \<or> map_of (rq_body req) (js ''itemName'') = None"
  shows "createPayment x cfg req s =
           (Inr (Response 400 (JsonError (js ''Amount and item name are required''))), s)"
  using assms
  by (auto simp: createPayment_def tryCatch_def ret_def obj_get_def)


theorem create_payment_rejects_missing_witness:
  "(map_of (rq_body \<lparr>rq_body = [(js ''itemName'', JStr (js ''Flareon Ex''))],
                     rq_protocol = JUndefined, rq_host = JUndefined\<rparr>) (js ''amount'') = None \<or>
    map_of (rq_body \<lparr>rq_body = [(js ''itemName'', JStr (js ''Flareon Ex''))],
                     rq_protocol = JUndefined, rq_host = JUndefined\<rparr>) (js ''itemName'') = None) \<and>
   createPayment sampleExt sampleCfg
       \<lparr>rq_body = [(js ''itemName'', JStr (js ''Flareon Ex''))],
        rq_protocol = JUndefined, rq_host = JUndefined\<rparr> sampleSys =
     (Inr (Response 400 (JsonError (js ''Amount and item name are required''))), sampleSys)"
proof -
  let ?req = "\<lparr>rq_body = [(js ''itemName'', JStr (js ''Flareon Ex''))],
               rq_protocol = JUndefined, rq_host = JUndefined\<rparr>"
  have h: "map_of (rq_body ?req) (js ''amount'') = None \<or>
           map_of (rq_body ?req) (js ''itemName'') = None"
    by (simp add: js_def)
  show ?thesis
    using h create_payment_rejects_missing [OF h, of sampleExt sampleCfg sampleSys] by simp
qed

section \<open>Properties of the payment status store\<close>

lemma keepsMemD:
  "keepsMem m \<Longrightarrow> paymentStatusStore (snd (m s)) = paymentStatusStore s"
  "keepsMem m \<Longrightarrow> clock (snd (m s)) = clock s"
  by (simp_all add: keepsMem_def)

lemma keepsMem_ret: "keepsMem (ret v)"
  by (simp add: keepsMem_def ret_def)

lemma keepsMem_liftE: "keepsMem (liftE r)"
  by (simp add: keepsMem_def liftE_def)

lemma keepsMem_dateNow: "keepsMem dateNow"
  by (simp add: keepsMem_def dateNow_def)

lemma keepsMem_mathRandom36: "keepsMem (mathRandom36 x)"
  by (simp add: keepsMem_def mathRandom36_def)

lemma keepsMem_dbStatement: "keepsMem (dbStatement q)"
  by (simp add: keepsMem_def dbStatement_def split: list.splits sum.splits prod.splits)

lemma keepsMem_dbSelect: "keepsMem (dbSelect q)"
  by (simp add: dbSelect_def keepsMem_dbStatement)

lemma keepsMem_dbUpdate: "keepsMem (dbUpdate u)"
  by (simp add: dbUpdate_def keepsMem_dbStatement)

lemma keepsMem_bind:
  assumes "keepsMem m" and "\<And>v. keepsMem (f v)"
  shows "keepsMem (bind m f)"
  unfolding keepsMem_def
proof
  fix s
  obtain r s' where ms: "m s = (r, s')" by (cases "m s")
  have s': "paymentStatusStore s' = paymentStatusStore s" "clock s' = clock s"
    using keepsMemD [OF assms(1), of s] ms by simp_all
  show "paymentStatusStore (snd (bind m f s)) = paymentStatusStore s \<and>
        clock (snd (bind m f s)) = clock s"
  proof (cases r)
    case (Inl e)
    then show ?thesis by (simp add: bind_def ms s')
  next
    case (Inr v)
    then show ?thesis using keepsMemD [OF assms(2), of v s'] by (simp add: bind_def ms s')
  qed
qed

lemma keepsMem_tryCatch:
  assumes "keepsMem m" and "\<And>e. keepsMem (h e)"
  shows "keepsMem (tryCatch m h)"
  unfolding keepsMem_def
proof
  fix s
  obtain r s' where ms: "m s = (r, s')" by (cases "m s")
  have s': "paymentStatusStore s' = paymentStatusStore s" "clock s' = clock s"
    using keepsMemD [OF assms(1), of s] ms by simp_all
  show "paymentStatusStore (snd (tryCatch m h s)) = paymentStatusStore s \<and>
        clock (snd (tryCatch m h s)) = clock s"
  proof (cases r)
    case (Inl e)
    then show ?thesis using keepsMemD [OF assms(2), of e s'] by (simp add: tryCatch_def ms s')
  next
    case (Inr v)
    then show ?thesis by (simp add: tryCatch_def ms s')
  qed
qed

lemmas keepsMem_intros = keepsMem_bind keepsMem_tryCatch keepsMem_ret keepsMem_liftE
  keepsMem_dateNow keepsMem_mathRandom36 keepsMem_dbStatement keepsMem_dbSelect
  keepsMem_dbUpdate

lemma keepsMem_findSellerCard: "keepsMem (findSellerCard x uid listing itemName)"
  unfolding findSellerCard_def
  by (intro keepsMem_bind keepsMem_dbSelect) (auto intro!: keepsMem_intros split: option.splits)

lemma keepsMem_commitTransfer:
  "keepsMem (commitTransfer x listingId buyerIdStr amount listing seller sellerStore sellerCard)"
  unfolding commitTransfer_def
  by (intro keepsMem_bind keepsMem_dateNow keepsMem_dbStatement keepsMem_dbUpdate
        keepsMem_mathRandom36)
     (auto intro!: keepsMem_intros split: option.splits)

lemma keepsMem_transferCardOwnership:
  "keepsMem (transferCardOwnership x listingId buyerId sellerId itemName amount)"
  unfolding transferCardOwnership_def
  by (intro keepsMem_tryCatch keepsMem_bind keepsMem_dbSelect keepsMem_ret)
     (auto intro!: keepsMem_intros keepsMem_findSellerCard keepsMem_commitTransfer
        split: option.splits)

lemma keepsMem_returnTransfer: "keepsMem (returnTransfer x ep)"
  unfolding returnTransfer_def
  by (auto intro!: keepsMem_intros keepsMem_transferCardOwnership split: option.splits)

lemma keepsMem_itnFallback: "keepsMem (itnFallback x data)"
  unfolding itnFallback_def
  by (intro keepsMem_bind keepsMem_dbSelect)
     (auto intro!: keepsMem_intros keepsMem_transferCardOwnership split: option.splits)

lemma keepsMem_newPaymentId: "keepsMem (newPaymentId x v)"
  unfolding newPaymentId_def by (auto intro!: keepsMem_intros)

lemma snd_tryCatch_ret: "snd (tryCatch m (\<lambda>e. ret v) s) = snd (m s)"
  by (simp add: tryCatch_def ret_def split: prod.splits sum.splits)

lemma snd_bind_ret: "snd (bind m (\<lambda>v. ret (g v)) s) = snd (m s)"
  by (simp add: bind_def ret_def split: prod.splits sum.splits)

lemma returnUpdate_store:
  "paymentStatusStore (snd (returnUpdate x k s)) =
     (case paymentStatusStore s k of
        Some ep \<Rightarrow>
          if p_status ep = pending
          then (paymentStatusStore s)(k \<mapsto> ep\<lparr>p_status := complete, p_timestamp := clock s\<rparr>)
          else paymentStatusStore s
      | None \<Rightarrow> (paymentStatusStore s)(k \<mapsto> bareComplete k (clock s)))"
  by (simp add: returnUpdate_def bind_def storeGet_def dateNow_def storeSet_def ret_def
        bareComplete_def keepsMemD [OF keepsMem_returnTransfer] split: option.splits)

lemma returnHandler_store:
  "paymentStatusStore (snd (returnHandler x status k s)) =
     (if returnUpdates status k
      then (case paymentStatusStore s k of
              Some ep \<Rightarrow>
                if p_status ep = pending
                then (paymentStatusStore s)(k \<mapsto> ep\<lparr>p_status := complete, p_timestamp := clock s\<rparr>)
                else paymentStatusStore s
            | None \<Rightarrow> (paymentStatusStore s)(k \<mapsto> bareComplete k (clock s)))
      else paymentStatusStore s)"
proof -
  have "snd (returnHandler x status k s) =
          snd ((if returnUpdates status k then returnUpdate x k else ret ()) s)"
    unfolding returnHandler_def returnUpdates_def snd_tryCatch_ret
    by (simp add: bind_def ret_def split: prod.splits sum.splits)
  then show ?thesis
    by (simp add: returnUpdate_store ret_def)
qed





lemma keepsMem_itnAfterSet:
  "keepsMem (if c then bind (transferCardOwnership x a b d e f) (\<lambda>u. ret okResponse)
             else itnFallback x data)"
  by (auto intro!: keepsMem_intros keepsMem_transferCardOwnership keepsMem_itnFallback)

lemma itnComplete_store:
  "paymentStatusStore (snd (itnComplete x data k s)) =
     (paymentStatusStore s)(k \<mapsto> itnCompleteRecord data k (clock s) (paymentStatusStore s k))"
  by (simp add: itnComplete_def bind_def storeGet_def dateNow_def storeSet_def
        itnCompleteRecord_def keepsMemD [OF keepsMem_itnAfterSet])

lemma itnFailed_store:
  "paymentStatusStore (snd (itnFailed k s)) =
     (paymentStatusStore s)(k \<mapsto> itnFailedRecord k (clock s))"
  by (simp add: itnFailed_def bind_def dateNow_def storeSet_def ret_def itnFailedRecord_def)

lemma itnHandler_store:
  "paymentStatusStore (snd (itnHandler x cfg data s)) =
     (case itnExpectedSignature x cfg data of
        Inl e \<Rightarrow> paymentStatusStore s
      | Inr expectedSignature \<Rightarrow>
          if obj_get data (js ''payment_status'') = JStr (js ''COMPLETE'')
          then (paymentStatusStore s)(obj_get data (js ''m_payment_id'') \<mapsto>
                 itnCompleteRecord data (obj_get data (js ''m_payment_id'')) (clock s)
                   (paymentStatusStore s (obj_get data (js ''m_payment_id''))))
          else if obj_get data (js ''payment_status'') = JStr (js ''FAILED'')
          then (paymentStatusStore s)(obj_get data (js ''m_payment_id'') \<mapsto>
                 itnFailedRecord (obj_get data (js ''m_payment_id'')) (clock s))
          else paymentStatusStore s)"
proof (cases "itnExpectedSignature x cfg data")
  case (Inl e)
  then show ?thesis
    by (simp add: itnHandler_def snd_tryCatch_ret bind_def liftE_def)
next
  case (Inr sg)
  then show ?thesis
    by (simp add: itnHandler_def snd_tryCatch_ret bind_def liftE_def itnComplete_store
          itnFailed_store ret_def)
qed

lemma writesOnly_keeps: "keepsMem m \<Longrightarrow> writesOnly P m"
  by (simp add: writesOnly_def keepsMem_def)

lemma writesOnly_bind:
  assumes "keepsMem m" and "\<And>v. writesOnly P (f v)"
  shows "writesOnly P (bind m f)"
  unfolding writesOnly_def
proof
  fix s
  obtain r s' where ms: "m s = (r, s')" by (cases "m s")
  have s': "paymentStatusStore s' = paymentStatusStore s"
    using keepsMemD(1) [OF assms(1), of s] ms by simp
  show "paymentStatusStore (snd (bind m f s)) = paymentStatusStore s \<or>
        (\<exists>k r. paymentStatusStore (snd (bind m f s)) = (paymentStatusStore s)(k \<mapsto> r) \<and> P r)"
  proof (cases r)
    case (Inl e)
    then show ?thesis by (simp add: bind_def ms s')
  next
    case (Inr v)
    then show ?thesis
      using assms(2) [of v, unfolded writesOnly_def, rule_format, of s']
      by (simp add: bind_def ms s')
  qed
qed

lemma writesOnly_tryCatch_ret: "writesOnly P m \<Longrightarrow> writesOnly P (tryCatch m (\<lambda>e. ret v))"
  by (simp add: writesOnly_def snd_tryCatch_ret)

lemma writesOnly_storeSet_ret: "P r \<Longrightarrow> writesOnly P (bind (storeSet k r) (\<lambda>u. ret v))"
  unfolding writesOnly_def by (auto simp: bind_def storeSet_def ret_def)

lemma writesOnly_let: "(\<And>v. writesOnly P (f v)) \<Longrightarrow> writesOnly P (Let a f)"
  by (simp add: Let_def)

lemma writesOnly_if:
  "writesOnly P a \<Longrightarrow> writesOnly P b \<Longrightarrow> writesOnly P (if c then a else b)"
  by simp

lemma writesOnly_createPayment: "writesOnly (\<lambda>r. p_status r = pending) (createPayment x cfg req)"
  unfolding createPayment_def Let_def
  apply (rule writesOnly_tryCatch_ret)
  apply (rule writesOnly_if)
   apply (rule writesOnly_keeps, rule keepsMem_ret)
  apply (rule writesOnly_bind, rule keepsMem_newPaymentId)
  apply (rule writesOnly_bind, rule keepsMem_liftE)
  apply (rule writesOnly_bind, rule keepsMem_liftE)
  apply (rule writesOnly_bind, rule keepsMem_liftE)
  apply (rule writesOnly_bind, rule keepsMem_dateNow)
  apply (rule writesOnly_storeSet_ret)
  apply simp
  done


lemma writesOnly_mono: "writesOnly P m \<Longrightarrow> (\<And>r. P r \<Longrightarrow> Q r) \<Longrightarrow> writesOnly Q m"
  unfolding writesOnly_def by blast

lemma store_shape:
  "P r \<Longrightarrow> S(k \<mapsto> r) = S \<or> (\<exists>k' r'. S(k \<mapsto> r) = S(k' \<mapsto> r') \<and> P r')"
  by blast

lemma writesOnly_returnHandler:
  "writesOnly (\<lambda>r. p_status r = complete) (returnHandler x status k)"
  unfolding writesOnly_def
proof
  fix s
  show "paymentStatusStore (snd (returnHandler x status k s)) = paymentStatusStore s \<or>
        (\<exists>k' r. paymentStatusStore (snd (returnHandler x status k s)) =
                   (paymentStatusStore s)(k' \<mapsto> r) \<and> p_status r = complete)"
    unfolding returnHandler_store
    by (cases "returnUpdates status k"; cases "paymentStatusStore s k")
       (simp_all add: store_shape bareComplete_def)
qed

lemma writesOnly_itnHandler:
  "writesOnly (\<lambda>r. p_status r = complete \<or> p_status r = failed) (itnHandler x cfg data)"
  unfolding writesOnly_def
proof
  fix s
  show "paymentStatusStore (snd (itnHandler x cfg data s)) = paymentStatusStore s \<or>
        (\<exists>k r. paymentStatusStore (snd (itnHandler x cfg data s)) =
                   (paymentStatusStore s)(k \<mapsto> r) \<and>
               (p_status r = complete \<or> p_status r = failed))"
    unfolding itnHandler_store
    by (cases "itnExpectedSignature x cfg data")
       (simp_all add: store_shape itnCompleteRecord_def itnFailedRecord_def)
qed

lemma writesOnly_handle:
  "writesOnly (\<lambda>r. p_status r \<noteq> cancelled) (handle x cfg req)"
proof (cases req)
  case (CreatePayment cr)
  then show ?thesis using writesOnly_mono [OF writesOnly_createPayment] by simp
next
  case (Return status k)
  then show ?thesis using writesOnly_mono [OF writesOnly_returnHandler] by simp
next
  case (Itn data)
  have "writesOnly (\<lambda>r. p_status r \<noteq> cancelled) (itnHandler x cfg data)"
    by (rule writesOnly_mono [OF writesOnly_itnHandler]) auto
  then show ?thesis using Itn by simp
qed

lemma step_no_new_cancelled:
  assumes "paymentStatusStore (step x cfg s req) k = Some r" and "p_status r = cancelled"
  shows "paymentStatusStore s k = Some r"
proof -
  have "paymentStatusStore (step x cfg s req) = paymentStatusStore s \<or>
        (\<exists>k' r'. paymentStatusStore (step x cfg s req) = (paymentStatusStore s)(k' \<mapsto> r') \<and>
                 p_status r' \<noteq> cancelled)"
    using writesOnly_handle [of x cfg req] by (simp add: writesOnly_def step_def)
  then show ?thesis
    using assms by (auto split: if_splits)
qed

lemma run_no_cancelled:
  assumes "\<forall>k r. paymentStatusStore s k = Some r \<longrightarrow> p_status r \<noteq> cancelled"
  shows "\<forall>k r. paymentStatusStore (run x cfg s reqs) k = Some r \<longrightarrow> p_status r \<noteq> cancelled"
  using assms
proof (induction reqs arbitrary: s)
  case Nil
  then show ?case by (simp add: run_def)
next
  case (Cons req reqs)
  have "\<forall>k r. paymentStatusStore (step x cfg s req) k = Some r \<longrightarrow> p_status r \<noteq> cancelled"
    using Cons.prems step_no_new_cancelled by blast
  then have "\<forall>k r. paymentStatusStore (run x cfg (step x cfg s req) reqs) k = Some r \<longrightarrow>
                 p_status r \<noteq> cancelled"
    by (rule Cons.IH)
  then show ?case by (simp add: run_def)
qed

lemma return_cancel_unchanged:
  "returnHandler x (JStr (js ''cancel'')) k s = (Inr (Response 200 CancelPage), s)"
  by (simp add: returnHandler_def tryCatch_def bind_def ret_def js_def)

text \<open>
  C10: no route writes the status \<open>cancelled\<close>. A browser return with \<open>status=cancel\<close> answers
  with the cancel page and leaves the whole server state, the map included, as it was: a
  pending record stays pending. A record that is \<open>cancelled\<close> after a request to
  \<open>/create-payment\<close>, \<open>/return\<close> or \<open>/itn\<close> was already stored, unchanged, before it; so a map
  without a cancelled record never gets one, whatever requests follow. (The other routes,
  \<open>/payment-form\<close>, \<open>/manual-transfer\<close> and \<open>/status\<close>, contain no write to the map.)
\<close>

theorem cancelled_never_written:
  "returnHandler x (JStr (js ''cancel'')) m_payment_id s = (Inr (Response 200 CancelPage), s) \<and>
   (\<forall>req k r. paymentStatusStore (step x cfg s req) k = Some r \<and> p_status r = cancelled \<longrightarrow>
        paymentStatusStore s k = Some r) \<and>
   ((\<forall>k r. paymentStatusStore s k = Some r \<longrightarrow> p_status r \<noteq> cancelled) \<longrightarrow>
    (\<forall>reqs k r. paymentStatusStore (run x cfg s reqs) k = Some r \<longrightarrow> p_status r \<noteq> cancelled))"
  using return_cancel_unchanged step_no_new_cancelled run_no_cancelled by blast

lemmas io_eval = bind_def ret_def tryCatch_def liftE_def dateNow_def mathRandom36_def
  storeGet_def storeSet_def dbStatement_def dbSelect_def dbUpdate_def

lemmas db_eval = listingById_def userById_def userByEmail_def storeByUserId_def storeById_def
  activeListingByName_def cardByExactName_def cardByLowerTrimName_def insertCollection_def
  deleteCollection_def markListingSold_def insertOrder_def incrementTotalSales_def optOr_def
  sqlDecimalParam_def
  findSellerCard_def purchasedFrom_def buyerCard_def orderPrice_def commitTransfer_def
  transferCardOwnership_def

lemmas route_eval = returnTransfer_def returnUpdate_def returnHandler_def itnExpectedSignature_def
  itnFallback_def storedField_def itnComplete_def itnFailed_def itnHandler_def step_def run_def
  okResponse_def passOpt_def js_or_def

lemmas sample_eval = sampleCfg_def sampleDb_def samplePending_def sampleSys_def
  sampleFailed_def sampleComplete_def sampleReturn_def sampleCancel_def sampleInit_def
  sampleCreate_def

lemma sample_no_cancelled:
  "\<forall>k r. paymentStatusStore sampleSys k = Some r \<longrightarrow> p_status r \<noteq> cancelled"
  by (simp add: sampleSys_def samplePending_def)

lemma run_sampleCancel: "run sampleExt sampleCfg sampleSys [sampleCancel] = sampleSys"
  by (simp add: run_def step_def sampleCancel_def return_cancel_unchanged)

theorem cancelled_never_written_witness:
  "run sampleExt sampleCfg sampleSys [sampleCancel] = sampleSys \<and>
   paymentStatusStore (run sampleExt sampleCfg sampleSys [sampleCancel]) (JStr (js ''p1'')) =
     Some samplePending \<and>
   p_status samplePending = pending \<and> p_status samplePending \<noteq> cancelled"
proof -
  have got: "paymentStatusStore (run sampleExt sampleCfg sampleSys [sampleCancel])
               (JStr (js ''p1'')) = Some samplePending"
    by (simp add: run_sampleCancel) (simp add: sampleSys_def)
  have "p_status samplePending \<noteq> cancelled"
    using cancelled_never_written [of sampleExt "JStr (js ''p1'')" sampleSys sampleCfg]
      sample_no_cancelled got by blast
  then show ?thesis
    using got run_sampleCancel by (simp add: samplePending_def)
qed

text \<open>
  What the handlers do to the status of a stored record: \<open>/return\<close> changes only a record
  that is still \<open>pending\<close>; \<open>/itn\<close> stores the reported outcome under its payment id
  whatever is stored there (unless it throws before, in the signature computation);
  \<open>/create-payment\<close> stores a pending record.
\<close>

lemma return_keeps_non_pending:
  assumes "paymentStatusStore s k = Some r" and "p_status r \<noteq> pending"
  shows "paymentStatusStore (snd (returnHandler x status m_payment_id s)) k = Some r"
  using assms unfolding returnHandler_store
  by (cases "paymentStatusStore s m_payment_id") auto

lemma return_pending_to_complete:
  assumes "paymentStatusStore s k = Some r" and "p_status r = pending"
  shows "paymentStatusStore (snd (returnHandler x status m_payment_id s)) k = Some r \<or>
         paymentStatusStore (snd (returnHandler x status m_payment_id s)) k =
           Some (r\<lparr>p_status := complete, p_timestamp := clock s\<rparr>)"
  using assms unfolding returnHandler_store
  by (cases "paymentStatusStore s m_payment_id") auto

lemma itn_other_status_unchanged:
  assumes "obj_get data (js ''payment_status'') \<noteq> JStr (js ''COMPLETE'')"
    and "obj_get data (js ''payment_status'') \<noteq> JStr (js ''FAILED'')"
  shows "paymentStatusStore (snd (itnHandler x cfg data s)) = paymentStatusStore s"
  using assms unfolding itnHandler_store
  by (cases "itnExpectedSignature x cfg data") auto

lemma itn_other_keys_unchanged:
  assumes "k \<noteq> obj_get data (js ''m_payment_id'')"
  shows "paymentStatusStore (snd (itnHandler x cfg data s)) k = paymentStatusStore s k"
  using assms unfolding itnHandler_store
  by (cases "itnExpectedSignature x cfg data") auto

lemma itn_writes_reported_status:
  assumes "itnExpectedSignature x cfg data = Inr e"
  shows "(obj_get data (js ''payment_status'') = JStr (js ''COMPLETE'') \<longrightarrow>
            map_option p_status
              (paymentStatusStore (snd (itnHandler x cfg data s)) (obj_get data (js ''m_payment_id'')))
              = Some complete) \<and>
         (obj_get data (js ''payment_status'') = JStr (js ''FAILED'') \<longrightarrow>
            map_option p_status
              (paymentStatusStore (snd (itnHandler x cfg data s)) (obj_get data (js ''m_payment_id'')))
              = Some failed)"
  using assms unfolding itnHandler_store
  by (auto simp: itnCompleteRecord_def itnFailedRecord_def js_def)

lemma create_writes_pending:
  "paymentStatusStore (snd (createPayment x cfg req s)) = paymentStatusStore s \<or>
   (\<exists>k r. paymentStatusStore (snd (createPayment x cfg req s)) = (paymentStatusStore s)(k \<mapsto> r) \<and>
          p_status r = pending)"
  using writesOnly_createPayment [of x cfg req] by (simp add: writesOnly_def)

section \<open>The sample payment, request by request\<close>

lemmas create_eval = createPayment_def newPaymentId_def resolveBackendUrl_def
  httpUrlOrUndefined_def paymentParamsOf_def parsedListingIdOf_def parsedUserIdOf_def Let_def

lemmas sample_eval2 = sample_eval sampleCard_def sampleOrder_def sampleDb1_def sampleDb2_def
  sampleReturned_def sampleNotified_def sampleAfter_def

lemma step_create_sample:
  "step sampleExt sampleCfg sampleInit (CreatePayment sampleCreate) = sampleSys"
  by (simp add: step_def create_eval io_eval passOpt_def js_or_def sample_eval codec_eval)

lemma step_return_sample:
  "step sampleExt sampleCfg sampleSys sampleReturn = sampleAfter sampleReturned sampleDb1 1"
  by (simp add: io_eval db_eval route_eval sample_eval2 codec_eval)

lemma step_itn_sample:
  "step sampleExt sampleCfg sampleSys (Itn sampleComplete) = sampleAfter sampleNotified sampleDb1 1"
  by (simp add: io_eval db_eval route_eval sample_eval2 codec_eval)

lemma step_itn_after_return:
  "step sampleExt sampleCfg (sampleAfter sampleReturned sampleDb1 1) (Itn sampleComplete) =
     sampleAfter sampleNotified sampleDb2 2"
  by (simp add: io_eval db_eval route_eval sample_eval2 codec_eval)

lemma step_itn_after_itn:
  "step sampleExt sampleCfg (sampleAfter sampleNotified sampleDb1 1) (Itn sampleComplete) =
     sampleAfter sampleNotified sampleDb2 2"
  by (simp add: io_eval db_eval route_eval sample_eval2 codec_eval)

lemma step_failed_after_return:
  "step sampleExt sampleCfg (sampleAfter sampleReturned sampleDb1 1) (Itn sampleFailed) =
     sampleAfter (itnFailedRecord (JStr (js ''p1'')) 1000) sampleDb1 1"
  by (simp add: io_eval route_eval sample_eval2 codec_eval itnFailedRecord_def)

lemma step_failed_sample:
  "step sampleExt sampleCfg sampleSys (Itn sampleFailed) =
     sampleAfter (itnFailedRecord (JStr (js ''p1'')) 1000) sampleDb 0"
  by (simp add: io_eval route_eval sample_eval2 codec_eval itnFailedRecord_def)

lemma run_two: "run x cfg s [a, b] = step x cfg (step x cfg s a) b"
  by (simp add: run_def)

lemma run_one: "run x cfg s [a] = step x cfg s a"
  by (simp add: run_def)

lemma run_three: "run x cfg s [a, b, c] = step x cfg (step x cfg (step x cfg s a) b) c"
  by (simp add: run_def)

lemma run_return_sample:
  "run sampleExt sampleCfg sampleSys [sampleReturn] = sampleAfter sampleReturned sampleDb1 1"
  unfolding run_one by (rule step_return_sample)

lemma run_return_failed_sample:
  "run sampleExt sampleCfg sampleSys [sampleReturn, Itn sampleFailed] =
     sampleAfter (itnFailedRecord (JStr (js ''p1'')) 1000) sampleDb1 1"
  unfolding run_two step_return_sample by (rule step_failed_after_return)

lemma step_failed_after_itn:
  "step sampleExt sampleCfg (sampleAfter sampleNotified sampleDb1 1) (Itn sampleFailed) =
     sampleAfter (itnFailedRecord (JStr (js ''p1'')) 1000) sampleDb1 1"
  by (simp add: io_eval route_eval sample_eval2 codec_eval itnFailedRecord_def)

lemma step_complete_after_failed:
  "step sampleExt sampleCfg (sampleAfter (itnFailedRecord (JStr (js ''p1'')) 1000) sampleDb 0)
     (Itn sampleComplete) =
     sampleAfter
       (sampleNotified\<lparr>p_listingId := JUndefined, p_buyerId := JUndefined,
                        p_sellerId := JUndefined\<rparr>) sampleDb1 1"
  by (simp add: io_eval db_eval route_eval sample_eval2 codec_eval itnFailedRecord_def)

lemma step_create_after_return:
  "step sampleExt sampleCfg (sampleAfter sampleReturned sampleDb1 1) (CreatePayment sampleCreate) =
     sampleAfter samplePending sampleDb1 1"
  by (simp add: step_def create_eval io_eval passOpt_def js_or_def sample_eval2 codec_eval)

lemma step_return_after_return:
  "step sampleExt sampleCfg (sampleAfter sampleReturned sampleDb1 1) sampleReturn =
     sampleAfter sampleReturned sampleDb1 1"
  by (simp add: io_eval db_eval route_eval sample_eval2 codec_eval)

lemma run_itn_failed_sample:
  "run sampleExt sampleCfg sampleSys [Itn sampleComplete, Itn sampleFailed] =
     sampleAfter (itnFailedRecord (JStr (js ''p1'')) 1000) sampleDb1 1"
  unfolding run_two step_itn_sample by (rule step_failed_after_itn)

lemma run_failed_itn_sample:
  "run sampleExt sampleCfg sampleSys [Itn sampleFailed, Itn sampleComplete] =
     sampleAfter
       (sampleNotified\<lparr>p_listingId := JUndefined, p_buyerId := JUndefined,
                        p_sellerId := JUndefined\<rparr>) sampleDb1 1"
  unfolding run_two step_failed_sample by (rule step_complete_after_failed)

lemma run_return_create_sample:
  "run sampleExt sampleCfg sampleSys [sampleReturn, CreatePayment sampleCreate] =
     sampleAfter samplePending sampleDb1 1"
  unfolding run_two step_return_sample by (rule step_create_after_return)

lemma run_return_return_sample:
  "run sampleExt sampleCfg sampleSys [sampleReturn, sampleReturn] =
     sampleAfter sampleReturned sampleDb1 1"
  unfolding run_two step_return_sample by (rule step_return_after_return)

lemma run_failed_sample:
  "run sampleExt sampleCfg sampleSys [Itn sampleFailed] =
     sampleAfter (itnFailedRecord (JStr (js ''p1'')) 1000) sampleDb 0"
  unfolding run_one by (rule step_failed_sample)

lemma run_itn_sample:
  "run sampleExt sampleCfg sampleSys [Itn sampleComplete] = sampleAfter sampleNotified sampleDb1 1"
  unfolding run_one by (rule step_itn_sample)

text \<open>
  C2: once the status of a stored record is \<open>complete\<close>, \<open>failed\<close> or \<open>cancelled\<close>, no later
  operation is to change it. The code changes it. After a \<open>COMPLETE\<close> notification has
  made the record of \<open>p1\<close> \<open>complete\<close> and the listing has been transferred, a \<open>FAILED\<close>
  notification for \<open>p1\<close> makes the record \<open>failed\<close>, and the order stays in the database;
  the same happens after the browser return has made the record \<open>complete\<close>. After a
  \<open>FAILED\<close> notification has made the record \<open>failed\<close>, a \<open>COMPLETE\<close> notification makes it
  \<open>complete\<close>. And \<open>/create-payment\<close> with the payment id of the completed record makes it
  \<open>pending\<close> again. \<open>/return\<close> writes only when the stored status is still \<open>pending\<close>, so a
  second browser return changes nothing; the writes of \<open>/itn\<close> and of \<open>/create-payment\<close> do
  not look at the stored status.
\<close>

theorem terminal_status_changes:
  "map_option p_status
     (paymentStatusStore (run sampleExt sampleCfg sampleSys [Itn sampleComplete])
        (JStr (js ''p1''))) = Some complete \<and>
   map_option p_status
     (paymentStatusStore (run sampleExt sampleCfg sampleSys [Itn sampleComplete, Itn sampleFailed])
        (JStr (js ''p1''))) = Some failed \<and>
   orders (db (run sampleExt sampleCfg sampleSys [Itn sampleComplete, Itn sampleFailed])) =
     [sampleOrder 1 (js ''ORD-n-r'')] \<and>
   map_option p_status
     (paymentStatusStore (run sampleExt sampleCfg sampleSys [sampleReturn]) (JStr (js ''p1''))) =
     Some complete \<and>
   map_option p_status
     (paymentStatusStore (run sampleExt sampleCfg sampleSys [sampleReturn, Itn sampleFailed])
        (JStr (js ''p1''))) = Some failed \<and>
   map_option p_status
     (paymentStatusStore (run sampleExt sampleCfg sampleSys [Itn sampleFailed])
        (JStr (js ''p1''))) = Some failed \<and>
   map_option p_status
     (paymentStatusStore (run sampleExt sampleCfg sampleSys [Itn sampleFailed, Itn sampleComplete])
        (JStr (js ''p1''))) = Some complete \<and>
   map_option p_status
     (paymentStatusStore
        (run sampleExt sampleCfg sampleSys [sampleReturn, CreatePayment sampleCreate])
        (JStr (js ''p1''))) = Some pending \<and>
   run sampleExt sampleCfg sampleSys [sampleReturn, sampleReturn] =
     run sampleExt sampleCfg sampleSys [sampleReturn]"
  unfolding run_return_sample run_return_failed_sample run_itn_sample run_itn_failed_sample
    run_failed_sample run_failed_itn_sample run_return_create_sample
    run_return_return_sample
  by (simp add: sampleAfter_def sampleReturned_def sampleNotified_def samplePending_def
        itnFailedRecord_def sampleDb1_def)

lemma run_create_sample:
  "run sampleExt sampleCfg sampleInit [CreatePayment sampleCreate] = sampleSys"
  unfolding run_one by (rule step_create_sample)

lemma run_return_itn_sample:
  "run sampleExt sampleCfg sampleSys [sampleReturn, Itn sampleComplete] =
     sampleAfter sampleNotified sampleDb2 2"
  unfolding run_two step_return_sample by (rule step_itn_after_return)

lemma run_itn_itn_sample:
  "run sampleExt sampleCfg sampleSys [Itn sampleComplete, Itn sampleComplete] =
     sampleAfter sampleNotified sampleDb2 2"
  unfolding run_two step_itn_sample by (rule step_itn_after_itn)

text \<open>
  C1: the committing side effects of the transfer are to run at most once for a payment
  id. They run twice for \<open>p1\<close>: the browser return transfers listing 1 (one order, sales
  counter 1, the seller's card replaced by the buyer's), and the \<open>COMPLETE\<close> notification
  that follows transfers it again (a second order, sales counter 2, a second card for the
  buyer), as does a second \<open>COMPLETE\<close> notification after a first. \<open>/return\<close> transfers only
  when the record is still \<open>pending\<close>; the \<open>COMPLETE\<close> branch of \<open>/itn\<close> does not look at the
  stored status.
\<close>

theorem transfer_runs_twice:
  "run sampleExt sampleCfg sampleInit [CreatePayment sampleCreate] = sampleSys \<and>
   run sampleExt sampleCfg sampleSys [sampleReturn] = sampleAfter sampleReturned sampleDb1 1 \<and>
   run sampleExt sampleCfg sampleSys [sampleReturn, Itn sampleComplete] =
     sampleAfter sampleNotified sampleDb2 2 \<and>
   run sampleExt sampleCfg sampleSys [Itn sampleComplete, Itn sampleComplete] =
     sampleAfter sampleNotified sampleDb2 2 \<and>
   length (orders sampleDb) = 0 \<and> length (orders sampleDb1) = 1 \<and>
   length (orders sampleDb2) = 2 \<and>
   map s_totalSales (stores sampleDb) = [Some 0] \<and>
   map s_totalSales (stores sampleDb1) = [Some 1] \<and>
   map s_totalSales (stores sampleDb2) = [Some 2] \<and>
   map c_userId (collections sampleDb) = [js ''s1''] \<and>
   map c_userId (collections sampleDb1) = [js ''b1''] \<and>
   map c_userId (collections sampleDb2) = [js ''b1'', js ''b1'']"
  unfolding run_create_sample run_return_sample run_return_itn_sample run_itn_itn_sample
  by (simp add: sampleDb_def sampleDb1_def sampleDb2_def sampleCard_def)

text \<open>
  What the three writes of the handlers keep of a stored record: the \<open>FAILED\<close> branch of
  \<open>/itn\<close> stores a record without \<open>listingId\<close>, \<open>buyerId\<close> and \<open>sellerId\<close>; the \<open>COMPLETE\<close>
  branch and \<open>/return\<close> keep them.
\<close>

lemma itn_failed_erases_ids:
  assumes "itnExpectedSignature x cfg data = Inr e"
    and "obj_get data (js ''payment_status'') = JStr (js ''FAILED'')"
  shows "paymentStatusStore (snd (itnHandler x cfg data s)) (obj_get data (js ''m_payment_id'')) =
           Some (itnFailedRecord (obj_get data (js ''m_payment_id'')) (clock s))"
  using assms unfolding itnHandler_store by (simp add: js_def)

lemma itn_complete_keeps_ids:
  assumes "itnExpectedSignature x cfg data = Inr e"
    and "obj_get data (js ''payment_status'') = JStr (js ''COMPLETE'')"
    and "paymentStatusStore s (obj_get data (js ''m_payment_id'')) = Some r"
  shows "\<exists>r'. paymentStatusStore (snd (itnHandler x cfg data s)) (obj_get data (js ''m_payment_id''))
                = Some r' \<and>
              p_listingId r' = p_listingId r \<and> p_buyerId r' = p_buyerId r \<and>
              p_sellerId r' = p_sellerId r"
  using assms unfolding itnHandler_store
  by (simp add: itnCompleteRecord_def storedField_def)

lemma return_keeps_ids:
  assumes "paymentStatusStore s k = Some r"
  shows "\<exists>r'. paymentStatusStore (snd (returnHandler x status m_payment_id s)) k = Some r' \<and>
              p_listingId r' = p_listingId r \<and> p_buyerId r' = p_buyerId r \<and>
              p_sellerId r' = p_sellerId r"
  using assms unfolding returnHandler_store
  by (cases "paymentStatusStore s m_payment_id") auto

text \<open>
  C3: an update that supplies no \<open>listingId\<close>, \<open>buyerId\<close> or \<open>sellerId\<close> is to keep the
  stored ones. The \<open>FAILED\<close> notification for \<open>p1\<close> erases them: the pending record of \<open>p1\<close>
  has listing 1, buyer \<open>b1\<close> and seller \<open>s1\<close>, and the record after the notification has
  none of the three. The \<open>COMPLETE\<close> notification and the browser return keep them.
\<close>

theorem itn_failed_drops_relation_ids:
  "paymentStatusStore sampleSys (JStr (js ''p1'')) = Some samplePending \<and>
   p_listingId samplePending = JNum 1 \<and> p_buyerId samplePending = JStr (js ''b1'') \<and>
   p_sellerId samplePending = JStr (js ''s1'') \<and>
   paymentStatusStore (run sampleExt sampleCfg sampleSys [Itn sampleFailed]) (JStr (js ''p1'')) =
     Some \<lparr> p_status = failed, p_mPaymentId = JStr (js ''p1''), p_pfPaymentId = JUndefined,
            p_amount = JUndefined, p_timestamp = 1000, p_listingId = JUndefined,
            p_buyerId = JUndefined, p_sellerId = JUndefined \<rparr> \<and>
   paymentStatusStore (run sampleExt sampleCfg sampleSys [Itn sampleComplete]) (JStr (js ''p1'')) =
     Some sampleNotified \<and>
   p_listingId sampleNotified = JNum 1 \<and> p_buyerId sampleNotified = JStr (js ''b1'') \<and>
   p_sellerId sampleNotified = JStr (js ''s1'') \<and>
   paymentStatusStore (run sampleExt sampleCfg sampleSys [sampleReturn]) (JStr (js ''p1'')) =
     Some sampleReturned \<and>
   p_listingId sampleReturned = JNum 1 \<and> p_buyerId sampleReturned = JStr (js ''b1'') \<and>
   p_sellerId sampleReturned = JStr (js ''s1'')"
  unfolding run_failed_sample run_itn_sample run_return_sample
  by (simp add: sampleAfter_def sampleSys_def sampleNotified_def sampleReturned_def
        samplePending_def itnFailedRecord_def)

section \<open>What the canonical string keeps\<close>

lemma sortedKeys_set:
  assumes "wfObject params"
  shows "set (sortedKeys x params) = {k. \<exists>v. (k, v) \<in> set params \<and> keepParam k v}"
  using assms by (auto simp: sortedKeys_def filteredParams_keys image_iff)

lemma sortedKeys_sorted: "sorted (sortedKeys x params)"
  by (simp add: sortedKeys_def)

lemma filtered_get:
  assumes "wfObject params" and "(k, v) \<in> set params" and "keepParam k v"
  shows "obj_get (filteredParams x params) k = JStr (trim (js_String x v))"
proof -
  have d: "distinct (map fst (filteredParams x params))"
    using assms(1) by (rule filteredParams_distinct)
  have "(k, JStr (trim (js_String x v))) \<in> set (filteredParams x params)"
    using assms by (force simp: filteredParams_wf keptPair_def)
  with d show ?thesis by (rule obj_get_mem)
qed

lemma allSome_mem:
  "allSome (map f xs) = Some ys \<Longrightarrow> a \<in> set xs \<Longrightarrow> f a = Some b \<Longrightarrow> b \<in> set ys"
proof (induction xs arbitrary: ys)
  case Nil
  then show ?case by simp
next
  case (Cons z zs)
  then show ?case by (cases "f z") auto
qed

lemma trim_zero: "trim (js ''0'') = js ''0''"
  by (simp add: trim_def isWhiteSpace_def js_def)

lemma trim_false: "trim (js ''false'') = js ''false''"
  by (simp add: trim_def isWhiteSpace_def js_def)

lemma encodeValue_zero: "encodeValue (js ''0'') = Some (js ''0'')"
  by (simp add: encodeValue_def uriUnreserved_def js_def)

lemma encodeValue_false: "encodeValue (js ''false'') = Some (js ''false'')"
  by (simp add: encodeValue_def uriUnreserved_def js_def)

lemma keepParam_nonempty: "v \<noteq> [] \<Longrightarrow> k \<noteq> js ''signature'' \<Longrightarrow> keepParam k (JStr v)"
  by (simp add: keepParam_def)

lemma piece_of_kept:
  assumes "wfObject params" and "(k, JStr v) \<in> set params" and "v \<noteq> []"
    and "k \<noteq> js ''signature''" and "trim v = w" and "encodeValue w = Some e"
  shows "k \<in> set (sortedKeys x params) \<and>
         paramPiece x (filteredParams x params) k = Some (k @ js ''='' @ e) \<and>
         (\<forall>pcs. paramPieces x params = Some pcs \<longrightarrow> k @ js ''='' @ e \<in> set pcs)"
proof -
  have keep: "keepParam k (JStr v)" using assms(3,4) by (rule keepParam_nonempty)
  have mem: "k \<in> set (sortedKeys x params)"
    using assms(1,2) keep by (auto simp: sortedKeys_set)
  have get: "obj_get (filteredParams x params) k = JStr w"
    using filtered_get [OF assms(1,2) keep, of x] assms(5) by simp
  have piece: "paramPiece x (filteredParams x params) k = Some (k @ js ''='' @ e)"
    by (simp add: paramPiece_def get assms(6))
  have "\<forall>pcs. paramPieces x params = Some pcs \<longrightarrow> k @ js ''='' @ e \<in> set pcs"
    unfolding paramPieces_def using allSome_mem mem piece by fastforce
  with mem piece show ?thesis by simp
qed

section \<open>Injectivity of the value encoding\<close>

lemma unreplace_replace: "43 \<notin> set s \<Longrightarrow> unreplacePlus (replacePct20 s) = s"
  by (induction s rule: replacePct20.induct) (auto simp: unreplacePlus_def)

lemma replacePct20_inj:
  "43 \<notin> set s \<Longrightarrow> 43 \<notin> set t \<Longrightarrow> replacePct20 s = replacePct20 t \<Longrightarrow> s = t"
  by (metis unreplace_replace)

lemma unreserved_small: "uriUnreserved c \<Longrightarrow> unat c < 128"
  by (auto simp: uriUnreserved_def Let_def)

lemma unreserved_not_surrogate:
  "uriUnreserved c \<Longrightarrow> \<not> isLowSurrogate c \<and> \<not> isHighSurrogate c"
  by (auto simp: uriUnreserved_def isLowSurrogate_def isHighSurrogate_def Let_def)

lemma encodeCodePoint_unit:
  "encodeCodePoint (unat c) = (if uriUnreserved c then [c] else pctEncode (unat c))"
  using unreserved_small [of c] by (auto simp: encodeCodePoint_def)

lemma pair_large: "65536 \<le> (a - 55296) * 1024 + (b - 56320) + (65536::nat)"
  by simp

lemma encodeCodePoint_large: "128 \<le> v \<Longrightarrow> encodeCodePoint v = pctEncode v"
  by (simp add: encodeCodePoint_def)

lemma encodeURIComponent_codePoints:
  "encodeURIComponent s = map_option (\<lambda>vs. concat (map encodeCodePoint vs)) (codePoints s)"
proof (induction s rule: encodeURIComponent.induct)
  case 1
  then show ?case by simp
next
  case (2 c)
  then show ?case
    using unreserved_not_surrogate [of c] by (auto simp: encodeCodePoint_unit)
next
  case (3 c d ds)
  show ?case
  proof (cases "uriUnreserved c")
    case True
    then show ?thesis
      using 3(1) unreserved_not_surrogate [of c]
      by (simp add: encodeCodePoint_unit option.map_comp comp_def)
  next
    case False
    show ?thesis
    proof (cases "isLowSurrogate c")
      case True
      then show ?thesis using False by simp
    next
      case low: False
      show ?thesis
      proof (cases "isHighSurrogate c")
        case True
        then show ?thesis
          using False low 3(2)
          by (simp add: encodeCodePoint_large option.map_comp comp_def)
      next
        case high: False
        then show ?thesis
          using False low 3(3)
          by (simp add: encodeCodePoint_unit option.map_comp comp_def)
      qed
    qed
  qed
qed

lemma hexDigit_unat: "d < 16 \<Longrightarrow> unat (hexDigit d) = (if d < 10 then 48 + d else 55 + d)"
  by (simp add: hexDigit_def unat_of_nat)

lemma hexDigit_inj: "d < 16 \<Longrightarrow> e < 16 \<Longrightarrow> hexDigit d = hexDigit e \<Longrightarrow> d = e"
proof -
  assume d: "d < 16" and e: "e < 16" and eq: "hexDigit d = hexDigit e"
  have "unat (hexDigit d) = unat (hexDigit e)" using eq by (rule arg_cong)
  then have "(if d < 10 then 48 + d else 55 + d) = (if e < 10 then 48 + e else 55 + e)"
    by (simp only: hexDigit_unat [OF d] hexDigit_unat [OF e])
  then show ?thesis by (cases "d < 10"; cases "e < 10") simp_all
qed

lemma pctOctet_inj: "b < 256 \<Longrightarrow> c < 256 \<Longrightarrow> pctOctet b = pctOctet c \<Longrightarrow> b = c"
proof -
  assume a: "b < 256" "c < 256" "pctOctet b = pctOctet c"
  have "b div 16 < 16" "c div 16 < 16" "b mod 16 < 16" "c mod 16 < 16" using a by auto
  then have "b div 16 = c div 16" "b mod 16 = c mod 16"
    using a(3) hexDigit_inj by (auto simp: pctOctet_def)
  then show ?thesis by (metis div_mult_mod_eq)
qed

lemma pct_concat_inj:
  "length bs = length cs \<Longrightarrow> \<forall>b\<in>set bs. b < 256 \<Longrightarrow> \<forall>c\<in>set cs. c < 256 \<Longrightarrow>
   concat (map pctOctet bs) @ r1 = concat (map pctOctet cs) @ r2 \<Longrightarrow> bs = cs \<and> r1 = r2"
proof (induction bs cs rule: list_induct2)
  case Nil
  then show ?case by simp
next
  case (Cons b bs c cs)
  have "pctOctet b @ (concat (map pctOctet bs) @ r1) = pctOctet c @ (concat (map pctOctet cs) @ r2)"
    using Cons.prems(3) by simp
  moreover have "length (pctOctet b) = length (pctOctet c)" by (simp add: pctOctet_def)
  ultimately have e: "pctOctet b = pctOctet c"
    "concat (map pctOctet bs) @ r1 = concat (map pctOctet cs) @ r2"
    by (simp_all add: append_eq_append_conv)
  have "b = c" using e(1) Cons.prems(1,2) by (auto intro: pctOctet_inj)
  moreover have "bs = cs \<and> r1 = r2" using Cons.IH Cons.prems e(2) by simp
  ultimately show ?case by simp
qed

lemma utf8_bounds: "v < 1114112 \<Longrightarrow> \<forall>b\<in>set (utf8 v). b < 256"
  by (auto simp: utf8_def)

lemma utf8_nonempty: "utf8 v \<noteq> []"
  by (simp add: utf8_def)

lemma utf8_1: "v < 128 \<Longrightarrow> utf8 v = [v]"
  by (simp add: utf8_def)

lemma utf8_2: "128 \<le> v \<Longrightarrow> v < 2048 \<Longrightarrow> utf8 v = [192 + v div 64, 128 + v mod 64]"
  by (simp add: utf8_def)

lemma utf8_3:
  "2048 \<le> v \<Longrightarrow> v < 65536 \<Longrightarrow>
   utf8 v = [224 + v div 4096, 128 + (v div 64) mod 64, 128 + v mod 64]"
  by (simp add: utf8_def)

lemma utf8_4:
  "65536 \<le> v \<Longrightarrow>
   utf8 v = [240 + v div 262144, 128 + (v div 4096) mod 64, 128 + (v div 64) mod 64,
             128 + v mod 64]"
  by (simp add: utf8_def)

lemma utf8_length: "length (utf8 v) = utf8Class v"
  by (simp add: utf8_def utf8Class_def)

lemma utf8_head_class:
  assumes "v < 1114112"
  shows "utf8Class v = (if hd (utf8 v) < 128 then 1 else if hd (utf8 v) < 224 then 2
                        else if hd (utf8 v) < 240 then 3 else 4)"
proof -
  consider "v < 128" | "128 \<le> v" "v < 2048" | "2048 \<le> v" "v < 65536" | "65536 \<le> v"
    by linarith
  then show ?thesis
  proof cases
    case 1
    then show ?thesis by (simp add: utf8_1 utf8Class_def)
  next
    case 2
    then have "v div 64 < 32" by simp
    then show ?thesis using 2 by (simp add: utf8_2 utf8Class_def)
  next
    case 3
    then have "v div 4096 < 16" by simp
    then show ?thesis using 3 by (simp add: utf8_3 utf8Class_def)
  next
    case 4
    then show ?thesis by (simp add: utf8_4 utf8Class_def)
  qed
qed

lemma utf8_length_head:
  "v < 1114112 \<Longrightarrow> w < 1114112 \<Longrightarrow> hd (utf8 v) = hd (utf8 w) \<Longrightarrow>
   length (utf8 v) = length (utf8 w)"
  by (simp only: utf8_length utf8_head_class)

lemma dm64: "(a::nat) div 64 = b div 64 \<Longrightarrow> a mod 64 = b mod 64 \<Longrightarrow> a = b"
  by (metis div_mult_mod_eq)

lemma div4096: "(v::nat) div 4096 = v div 64 div 64"
  by (simp add: div_mult2_eq [symmetric])

lemma div262144: "(v::nat) div 262144 = v div 4096 div 64"
  by (simp add: div_mult2_eq [symmetric])

lemma utf8_inj:
  assumes "utf8 v = utf8 w"
  shows "v = w"
proof -
  have c: "utf8Class v = utf8Class w" using assms utf8_length by metis
  consider "v < 128" | "128 \<le> v" "v < 2048" | "2048 \<le> v" "v < 65536" | "65536 \<le> v"
    by linarith
  then show ?thesis
  proof cases
    case 1
    then have "w < 128" using c by (simp add: utf8Class_def split: if_splits)
    then show ?thesis using assms 1 by (simp add: utf8_1)
  next
    case 2
    then have "128 \<le> w" "w < 2048" using c by (simp_all add: utf8Class_def split: if_splits)
    then have "v div 64 = w div 64" "v mod 64 = w mod 64"
      using assms 2 by (simp_all add: utf8_2)
    then show ?thesis by (rule dm64)
  next
    case 3
    then have "2048 \<le> w" "w < 65536" using c by (simp_all add: utf8Class_def split: if_splits)
    then have e: "v div 4096 = w div 4096" "(v div 64) mod 64 = (w div 64) mod 64"
      "v mod 64 = w mod 64"
      using assms 3 by (simp_all add: utf8_3)
    have "v div 64 = w div 64" using e(1,2) unfolding div4096 by (rule dm64)
    then show ?thesis using e(3) by (rule dm64)
  next
    case 4
    then have "65536 \<le> w" using c by (simp_all add: utf8Class_def split: if_splits)
    then have e: "v div 262144 = w div 262144" "(v div 4096) mod 64 = (w div 4096) mod 64"
      "(v div 64) mod 64 = (w div 64) mod 64" "v mod 64 = w mod 64"
      using assms 4 by (simp_all add: utf8_4)
    have "v div 4096 = w div 4096" using e(1,2) unfolding div262144 by (rule dm64)
    then have "v div 64 = w div 64" using e(3) unfolding div4096 by (rule dm64)
    then show ?thesis using e(4) by (rule dm64)
  qed
qed

lemma pctEncode_inj:
  assumes "v < 1114112" and "w < 1114112" and "pctEncode v @ r1 = pctEncode w @ r2"
  shows "v = w \<and> r1 = r2"
proof -
  obtain a as where va: "utf8 v = a # as" using utf8_nonempty [of v] by (cases "utf8 v") auto
  obtain b bs where wb: "utf8 w = b # bs" using utf8_nonempty [of w] by (cases "utf8 w") auto
  have ab: "a < 256" "b < 256" using utf8_bounds assms(1,2) va wb by fastforce+
  have "pctOctet a @ (concat (map pctOctet as) @ r1) = pctOctet b @ (concat (map pctOctet bs) @ r2)"
    using assms(3) by (simp add: pctEncode_def va wb)
  moreover have "length (pctOctet a) = length (pctOctet b)" by (simp add: pctOctet_def)
  ultimately have "pctOctet a = pctOctet b" by (simp add: append_eq_append_conv)
  then have "a = b" using ab by (intro pctOctet_inj)
  then have "hd (utf8 v) = hd (utf8 w)" by (simp add: va wb)
  then have len: "length (utf8 v) = length (utf8 w)"
    using assms(1,2) by (intro utf8_length_head)
  have "utf8 v = utf8 w \<and> r1 = r2"
    using len utf8_bounds [OF assms(1)] utf8_bounds [OF assms(2)] assms(3)
    unfolding pctEncode_def by (rule pct_concat_inj)
  then show ?thesis using utf8_inj by blast
qed

lemma pctEncode_head: "\<exists>t. pctEncode v = 37 # t"
  using utf8_nonempty [of v] by (cases "utf8 v") (auto simp: pctEncode_def pctOctet_def)

lemma unreserved_37: "\<not> uriUnreserved 37"
  by (simp add: uriUnreserved_def)

lemma of_nat_inj_small:
  "v < 128 \<Longrightarrow> w < 128 \<Longrightarrow> (of_nat v :: 16 word) = of_nat w \<Longrightarrow> v = w"
proof -
  assume a: "v < 128" "w < 128" "(of_nat v :: 16 word) = of_nat w"
  have "unat (of_nat v :: 16 word) = v" "unat (of_nat w :: 16 word) = w"
    using a(1,2) by (simp_all add: unat_of_nat)
  then show ?thesis using a(3) by metis
qed

lemma encodeCodePoint_unreserved:
  "uriUnreserved (of_nat v) \<and> v < 128 \<Longrightarrow> encodeCodePoint v = [of_nat v]"
  by (simp add: encodeCodePoint_def)

lemma encodeCodePoint_pct:
  "\<not> (uriUnreserved (of_nat v) \<and> v < 128) \<Longrightarrow> encodeCodePoint v = pctEncode v"
  unfolding encodeCodePoint_def by (rule if_not_P)

lemma encodeCodePoint_inj:
  assumes "v < 1114112" and "w < 1114112"
    and "encodeCodePoint v @ r1 = encodeCodePoint w @ r2"
  shows "v = w \<and> r1 = r2"
proof (cases "uriUnreserved (of_nat v) \<and> v < 128")
  case True
  note tv = True
  have ev: "encodeCodePoint v = [of_nat v]" using tv by (rule encodeCodePoint_unreserved)
  show ?thesis
  proof (cases "uriUnreserved (of_nat w) \<and> w < 128")
    case True
    have ew: "encodeCodePoint w = [of_nat w]" using True by (rule encodeCodePoint_unreserved)
    have "(of_nat v :: 16 word) = of_nat w \<and> r1 = r2" using assms(3) by (simp add: ev ew)
    then show ?thesis using tv True of_nat_inj_small by blast
  next
    case False
    have ew: "encodeCodePoint w = pctEncode w" using False by (rule encodeCodePoint_pct)
    obtain t where "pctEncode w = 37 # t" using pctEncode_head by blast
    then have "(of_nat v :: 16 word) = 37" using assms(3) by (simp add: ev ew)
    then show ?thesis using tv unreserved_37 by simp
  qed
next
  case False
  note fv = False
  have ev: "encodeCodePoint v = pctEncode v" using fv by (rule encodeCodePoint_pct)
  show ?thesis
  proof (cases "uriUnreserved (of_nat w) \<and> w < 128")
    case True
    have ew: "encodeCodePoint w = [of_nat w]" using True by (rule encodeCodePoint_unreserved)
    obtain t where "pctEncode v = 37 # t" using pctEncode_head by blast
    then have "(of_nat w :: 16 word) = 37" using assms(3) by (simp add: ev ew)
    then show ?thesis using True unreserved_37 by simp
  next
    case False
    have ew: "encodeCodePoint w = pctEncode w" using False by (rule encodeCodePoint_pct)
    have "pctEncode v @ r1 = pctEncode w @ r2" using assms(3) by (simp add: ev ew)
    then show ?thesis using assms(1,2) by (intro pctEncode_inj)
  qed
qed

lemma encodeCodePoint_nonempty: "encodeCodePoint v \<noteq> []"
  using pctEncode_head [of v] by (auto simp: encodeCodePoint_def)

lemma encodeCodePoints_inj:
  "\<forall>v\<in>set vs. v < 1114112 \<Longrightarrow> \<forall>w\<in>set ws. w < 1114112 \<Longrightarrow>
   concat (map encodeCodePoint vs) = concat (map encodeCodePoint ws) \<Longrightarrow> vs = ws"
proof (induction vs arbitrary: ws)
  case Nil
  then show ?case using encodeCodePoint_nonempty by (cases ws) auto
next
  case (Cons v vs)
  show ?case
  proof (cases ws)
    case Nil
    then show ?thesis using Cons.prems(3) encodeCodePoint_nonempty by auto
  next
    case (Cons w ws')
    have "encodeCodePoint v @ concat (map encodeCodePoint vs) =
          encodeCodePoint w @ concat (map encodeCodePoint ws')"
      using Cons.prems(3) Cons by simp
    moreover have "v < 1114112" "w < 1114112" using Cons.prems(1,2) Cons by auto
    ultimately have "v = w \<and> concat (map encodeCodePoint vs) = concat (map encodeCodePoint ws')"
      by (intro encodeCodePoint_inj)
    moreover have "vs = ws'"
      using Cons.IH [of ws'] Cons.prems(1,2) Cons calculation by auto
    ultimately show ?thesis using Cons by simp
  qed
qed

lemma unat16_bound: "unat (c :: 16 word) < 65536"
  using unsigned_less [of c, where 'a = nat] by simp

lemma codePoints_Nil: "codePoints s = Some [] \<Longrightarrow> s = []"
  by (induction s rule: codePoints.induct) (auto split: if_splits)

lemma codePoints_Cons:
  assumes "codePoints s = Some (v # vs)"
  shows "(\<exists>c r. s = c # r \<and> v = unat c \<and> codePoints r = Some vs) \<or>
         (\<exists>c d r. s = c # d # r \<and> isHighSurrogate c \<and> isLowSurrogate d \<and>
                  v = (unat c - 55296) * 1024 + (unat d - 56320) + 65536 \<and>
                  codePoints r = Some vs)"
  using assms
proof (induction s rule: codePoints.induct)
  case 1
  then show ?case by simp
next
  case (2 c)
  then show ?case by (auto split: if_splits)
next
  case (3 c d ds)
  then show ?case by (auto split: if_splits)
qed

lemma pair_inj:
  assumes "isHighSurrogate c" "isLowSurrogate d" "isHighSurrogate c'" "isLowSurrogate d'"
    and "(unat c - 55296) * 1024 + (unat d - 56320) + 65536 =
         (unat c' - 55296) * 1024 + (unat d' - 56320) + (65536::nat)"
  shows "c = c' \<and> d = d'"
proof -
  define a where "a = unat c - 55296"
  define b where "b = unat d - 56320"
  define a' where "a' = unat c' - 55296"
  define b' where "b' = unat d' - 56320"
  have bb: "b < 1024" "b' < 1024"
    using assms(2,4) by (auto simp: b_def b'_def isLowSurrogate_def)
  have eq: "a * 1024 + b = a' * 1024 + b'"
    using assms(5) by (simp add: a_def b_def a'_def b'_def)
  have "(a * 1024 + b) div 1024 = a" "(a' * 1024 + b') div 1024 = a'"
       "(a * 1024 + b) mod 1024 = b" "(a' * 1024 + b') mod 1024 = b'"
    using bb by simp_all
  then have "a = a'" "b = b'" using eq by metis+
  then have "unat c = unat c'" "unat d = unat d'"
    using assms(1-4)
    by (auto simp: a_def b_def a'_def b'_def isLowSurrogate_def isHighSurrogate_def)
  then show ?thesis by (simp add: word_unat_eq_iff)
qed

lemma codePoints_inj:
  "codePoints s = Some vs \<Longrightarrow> codePoints t = Some vs \<Longrightarrow> s = t"
proof (induction vs arbitrary: s t)
  case Nil
  then show ?case using codePoints_Nil by blast
next
  case (Cons v vs)
  consider
    (unit) c r where "s = c # r" "v = unat c" "codePoints r = Some vs" |
    (pair) c d r where "s = c # d # r" "isHighSurrogate c" "isLowSurrogate d"
      "v = (unat c - 55296) * 1024 + (unat d - 56320) + 65536" "codePoints r = Some vs"
    using codePoints_Cons [OF Cons.prems(1)] by blast
  then show ?case
  proof cases
    case unit
    note u = unit
    consider
      (unit') c' r' where "t = c' # r'" "v = unat c'" "codePoints r' = Some vs" |
      (pair') c' d' r' where "t = c' # d' # r'" "isHighSurrogate c'" "isLowSurrogate d'"
        "v = (unat c' - 55296) * 1024 + (unat d' - 56320) + 65536" "codePoints r' = Some vs"
      using codePoints_Cons [OF Cons.prems(2)] by blast
    then show ?thesis
    proof cases
      case unit'
      have "c = c'" using u(2) unit'(2) by (simp add: word_unat_eq_iff)
      moreover have "r = r'" using u(3) unit'(3) by (rule Cons.IH)
      ultimately show ?thesis using u(1) unit'(1) by simp
    next
      case pair'
      have "v < 65536" using u(2) unat16_bound by simp
      then show ?thesis using pair'(4) by simp
    qed
  next
    case pair
    note p = pair
    consider
      (unit') c' r' where "t = c' # r'" "v = unat c'" "codePoints r' = Some vs" |
      (pair') c' d' r' where "t = c' # d' # r'" "isHighSurrogate c'" "isLowSurrogate d'"
        "v = (unat c' - 55296) * 1024 + (unat d' - 56320) + 65536" "codePoints r' = Some vs"
      using codePoints_Cons [OF Cons.prems(2)] by blast
    then show ?thesis
    proof cases
      case unit'
      have "v < 65536" using unit'(2) unat16_bound by simp
      then show ?thesis using p(4) by simp
    next
      case pair'
      have "c = c' \<and> d = d'"
        using p(2,3) pair'(2,3) p(4) pair'(4) by (intro pair_inj) simp_all
      moreover have "r = r'" using p(5) pair'(5) by (rule Cons.IH)
      ultimately show ?thesis using p(1) pair'(1) by simp
    qed
  qed
qed

lemma codePoints_valid: "codePoints s = Some vs \<Longrightarrow> \<forall>v\<in>set vs. v < 1114112"
proof (induction vs arbitrary: s)
  case Nil
  then show ?case by simp
next
  case (Cons v vs)
  consider
    (unit) c r where "s = c # r" "v = unat c" "codePoints r = Some vs" |
    (pair) c d r where "s = c # d # r" "isHighSurrogate c" "isLowSurrogate d"
      "v = (unat c - 55296) * 1024 + (unat d - 56320) + 65536" "codePoints r = Some vs"
    using codePoints_Cons [OF Cons.prems(1)] by blast
  then show ?case
  proof cases
    case unit
    have "v < 1114112" using unit(2) unat16_bound [of c] by simp
    then show ?thesis using Cons.IH [OF unit(3)] by simp
  next
    case pair
    have "unat c - 55296 \<le> 1023" "unat d - 56320 \<le> 1023"
      using pair(2,3) by (auto simp: isHighSurrogate_def isLowSurrogate_def)
    then have "v < 1114112" using pair(4) by simp
    then show ?thesis using Cons.IH [OF pair(5)] by simp
  qed
qed

lemma encodeURIComponent_inj:
  assumes "encodeURIComponent s = Some e" and "encodeURIComponent t = Some e"
  shows "s = t"
proof -
  obtain vs where vs: "codePoints s = Some vs" "e = concat (map encodeCodePoint vs)"
    using assms(1) by (auto simp: encodeURIComponent_codePoints)
  obtain ws where ws: "codePoints t = Some ws" "e = concat (map encodeCodePoint ws)"
    using assms(2) by (auto simp: encodeURIComponent_codePoints)
  have "vs = ws"
    using codePoints_valid [OF vs(1)] codePoints_valid [OF ws(1)] vs(2) ws(2)
    by (intro encodeCodePoints_inj) simp_all
  then show ?thesis using vs(1) ws(1) codePoints_inj by blast
qed

lemma hexDigit_not_plus: "d < 16 \<Longrightarrow> hexDigit d \<noteq> 43"
proof
  assume d: "d < 16" and e: "hexDigit d = 43"
  have "unat (hexDigit d) = unat (43 :: 16 word)" using e by (rule arg_cong)
  then have "(if d < 10 then 48 + d else 55 + d) = unat (43 :: 16 word)"
    by (simp only: hexDigit_unat [OF d])
  then show False by (cases "d < 10") simp_all
qed

lemma pctOctet_no_plus: "b < 256 \<Longrightarrow> 43 \<notin> set (pctOctet b)"
proof -
  assume "b < 256"
  then have "b div 16 < 16" "b mod 16 < 16" by auto
  then show ?thesis using hexDigit_not_plus by (auto simp: pctOctet_def)
qed

lemma unreserved_43: "\<not> uriUnreserved 43"
  by (simp add: uriUnreserved_def)

lemma encodeCodePoint_no_plus:
  assumes "v < 1114112"
  shows "43 \<notin> set (encodeCodePoint v)"
proof (cases "uriUnreserved (of_nat v) \<and> v < 128")
  case True
  have e: "encodeCodePoint v = [of_nat v]" using True by (rule encodeCodePoint_unreserved)
  have "(of_nat v :: 16 word) \<noteq> 43"
  proof
    assume "(of_nat v :: 16 word) = 43"
    then have "uriUnreserved 43" using True by metis
    then show False using unreserved_43 by blast
  qed
  then show ?thesis unfolding e by simp
next
  case False
  have e: "encodeCodePoint v = concat (map pctOctet (utf8 v))"
    using encodeCodePoint_pct [OF False] by (simp only: pctEncode_def)
  have "\<forall>b\<in>set (utf8 v). 43 \<notin> set (pctOctet b)"
    using utf8_bounds [OF assms] pctOctet_no_plus by blast
  then show ?thesis unfolding e by simp
qed

lemma concat_no_plus:
  "\<forall>v\<in>set vs. 43 \<notin> set (encodeCodePoint v) \<Longrightarrow> 43 \<notin> set (concat (map encodeCodePoint vs))"
  by (induction vs) simp_all

lemma encodeURIComponent_no_plus:
  assumes "encodeURIComponent s = Some e"
  shows "43 \<notin> set e"
proof -
  obtain vs where vs: "codePoints s = Some vs" "e = concat (map encodeCodePoint vs)"
    using assms by (auto simp: encodeURIComponent_codePoints)
  have "\<forall>v\<in>set vs. 43 \<notin> set (encodeCodePoint v)"
    using codePoints_valid [OF vs(1)] encodeCodePoint_no_plus by blast
  then show ?thesis unfolding vs(2) by (rule concat_no_plus)
qed

lemma encodeValue_Some:
  "encodeValue s = Some e \<Longrightarrow> \<exists>a. encodeURIComponent s = Some a \<and> e = replacePct20 a"
  unfolding encodeValue_def by (cases "encodeURIComponent s") simp_all

lemma encodeValue_inj:
  assumes "encodeValue s = Some e" and "encodeValue t = Some e"
  shows "s = t"
proof -
  obtain a where a: "encodeURIComponent s = Some a" "e = replacePct20 a"
    using encodeValue_Some [OF assms(1)] by blast
  obtain b where b: "encodeURIComponent t = Some b" "e = replacePct20 b"
    using encodeValue_Some [OF assms(2)] by blast
  have "replacePct20 a = replacePct20 b" using a(2) b(2) by (rule trans [OF sym])
  with encodeURIComponent_no_plus [OF a(1)] encodeURIComponent_no_plus [OF b(1)]
  have "a = b" by (rule replacePct20_inj)
  then show ?thesis using a(1) b(1) encodeURIComponent_inj by blast
qed

lemma joinWith_Cons: "joinWith sep (p # ps) = p @ (if ps = [] then [] else sep @ joinWith sep ps)"
  by (cases ps) simp_all

lemma joinWith_split:
  "joinWith sep (as @ p # bs) =
     concat (map (\<lambda>a. a @ sep) as) @ p @ (if bs = [] then [] else sep @ joinWith sep bs)"
  by (induction as) (simp_all add: joinWith_Cons)

lemma allSome_map_Some:
  "allSome xs = Some ys \<Longrightarrow> xs = map Some ys"
proof (induction xs arbitrary: ys)
  case Nil
  then show ?case by simp
next
  case (Cons z zs)
  then show ?case by (cases z) auto
qed

lemma allSome_Some: "allSome (map Some ys) = Some ys"
  by (induction ys) simp_all

lemma allSome_split:
  "allSome (map f (as @ k # bs)) = Some ys \<Longrightarrow>
   \<exists>A p B. ys = A @ p # B \<and> map f as = map Some A \<and> f k = Some p \<and> map f bs = map Some B"
proof (induction as arbitrary: ys)
  case Nil
  then obtain p where p: "f k = Some p" by (cases "f k") auto
  then obtain B where B: "allSome (map f bs) = Some B" "ys = p # B"
    using Nil by auto
  have "map f bs = map Some B" using B(1) by (rule allSome_map_Some)
  then show ?case using p B(2) by auto
next
  case (Cons a as)
  then obtain q where q: "f a = Some q" by (cases "f a") auto
  then obtain ys' where ys': "allSome (map f (as @ k # bs)) = Some ys'" "ys = q # ys'"
    using Cons.prems by auto
  obtain A p B where "ys' = A @ p # B" "map f as = map Some A" "f k = Some p"
      "map f bs = map Some B"
    using Cons.IH [OF ys'(1)] by blast
  then have "ys = (q # A) @ p # B \<and> map f (a # as) = map Some (q # A) \<and> f k = Some p \<and>
             map f bs = map Some B"
    using q ys'(2) by simp
  then show ?case by blast
qed

lemma withValue_keys: "map fst (withValue params k v) = map fst params"
  by (induction params) (auto simp: withValue_def)

lemma wfObject_withValue: "wfObject (withValue params k v) = wfObject params"
  by (simp add: wfObject_def withValue_keys)

lemma withValue_mem_other:
  "k' \<noteq> k \<Longrightarrow> ((k', u) \<in> set (withValue params k v)) = ((k', u) \<in> set params)"
  by (induction params) (auto simp: withValue_def)

lemma withValue_mem_same:
  "(k, u) \<in> set params \<Longrightarrow> (k, JStr v) \<in> set (withValue params k v)"
  by (force simp: withValue_def)

lemma withValue_absent: "k \<notin> fst ` set params \<Longrightarrow> withValue params k v = params"
  by (induction params) (auto simp: withValue_def)

lemma withValue_kept_keys:
  assumes "distinct (map fst params)" and "(k, JStr v) \<in> set params" and "v \<noteq> []" and "v' \<noteq> []"
  shows "map fst (filter (\<lambda>kv. keepParam (fst kv) (snd kv)) (withValue params k v')) =
         map fst (filter (\<lambda>kv. keepParam (fst kv) (snd kv)) params)"
  using assms
proof (induction params)
  case Nil
  then show ?case by simp
next
  case (Cons p ps)
  show ?case
  proof (cases "fst p = k")
    case True
    then have "p = (k, JStr v)" using Cons.prems(1,2) by (cases p) (auto simp: rev_image_eqI)
    moreover have "withValue ps k v' = ps"
      using Cons.prems(1) True by (simp add: withValue_absent)
    ultimately show ?thesis using Cons.prems(3,4) by (simp add: withValue_def keepParam_def)
  next
    case False
    then have "(k, JStr v) \<in> set ps" using Cons.prems(2) by auto
    then have "map fst (filter (\<lambda>kv. keepParam (fst kv) (snd kv)) (withValue ps k v')) =
               map fst (filter (\<lambda>kv. keepParam (fst kv) (snd kv)) ps)"
      using Cons.IH Cons.prems by simp
    then show ?thesis using False by (simp add: withValue_def)
  qed
qed

lemma sortedKeys_withValue:
  assumes "wfObject params" and "(k, JStr v) \<in> set params" and "v \<noteq> []" and "v' \<noteq> []"
  shows "sortedKeys x (withValue params k v') = sortedKeys x params"
proof -
  have "wfObject (withValue params k v')" using assms(1) by (simp add: wfObject_withValue)
  then show ?thesis
    using assms withValue_kept_keys [of params k v v']
    by (simp add: sortedKeys_def filteredParams_keys wfObject_def)
qed

lemma sortedKeys_distinct: "wfObject params \<Longrightarrow> distinct (sortedKeys x params)"
  using filteredParams_distinct [of params x] by (simp add: sortedKeys_def obj_keys_def)

lemma piece_other:
  assumes "wfObject params" and "k' \<in> set (sortedKeys x params)" and "k' \<noteq> k"
  shows "paramPiece x (filteredParams x (withValue params k v')) k' =
         paramPiece x (filteredParams x params) k'"
proof -
  obtain u where u: "(k', u) \<in> set params" "keepParam k' u"
    using assms(1,2) by (auto simp: sortedKeys_set)
  have u': "(k', u) \<in> set (withValue params k v')"
    using u(1) assms(3) by (simp add: withValue_mem_other)
  have wf': "wfObject (withValue params k v')" using assms(1) by (simp add: wfObject_withValue)
  have "obj_get (filteredParams x (withValue params k v')) k' = JStr (trim (js_String x u))"
    using wf' u' u(2) by (rule filtered_get)
  moreover have "obj_get (filteredParams x params) k' = JStr (trim (js_String x u))"
    using assms(1) u by (rule filtered_get)
  ultimately show ?thesis by (simp add: paramPiece_def)
qed

lemma piece_same:
  assumes "wfObject params" and "(k, JStr v) \<in> set params" and "v \<noteq> []"
    and "k \<noteq> js ''signature''"
  shows "paramPiece x (filteredParams x params) k =
         map_option (\<lambda>e. k @ js ''='' @ e) (encodeValue (trim v))"
proof -
  have "obj_get (filteredParams x params) k = JStr (trim (js_String x (JStr v)))"
    using assms(1,2) keepParam_nonempty [OF assms(3,4)] by (rule filtered_get)
  then show ?thesis by (simp add: paramPiece_def)
qed

lemma signatureString_Some:
  assumes "signatureString x params pass = Some s"
  shows "\<exists>ps. paramString x params = Some ps \<and> s = ps @ passSuffix pass"
proof -
  obtain ps where ps: "paramString x params = Some ps"
    using assms by (cases "paramString x params") (simp_all add: signatureString_def)
  show ?thesis
  proof (cases pass)
    case None
    then show ?thesis using assms ps by (simp add: signatureString_def passSuffix_def)
  next
    case (Some pp)
    then show ?thesis
      using assms ps
      by (cases "encodeValue (trim pp)")
         (auto simp: signatureString_def passSuffix_def split: if_splits)
  qed
qed

lemma map_Some_inj: "map Some A = map Some B \<Longrightarrow> A = B"
  by (simp add: inj_map_eq_map)

lemma paramString_split:
  assumes wf: "wfObject params" and mem: "(k, JStr v) \<in> set params" and ne: "v \<noteq> []"
    and ks: "k \<noteq> js ''signature''"
    and split: "sortedKeys x params = as @ k # bs"
    and ps: "paramString x params = Some s"
  shows "\<exists>A B e. map (paramPiece x (filteredParams x params)) as = map Some A \<and>
                 map (paramPiece x (filteredParams x params)) bs = map Some B \<and>
                 encodeValue (trim v) = Some e \<and>
                 s = concat (map (\<lambda>a. a @ js ''&'') A) @ (k @ js ''='' @ e) @
                     (if B = [] then [] else js ''&'' @ joinWith (js ''&'') B)"
proof -
  let ?f = "paramPiece x (filteredParams x params)"
  obtain pcs where pcs: "paramPieces x params = Some pcs" "s = joinWith (js ''&'') pcs"
    using ps unfolding paramString_def by (cases "paramPieces x params") auto
  have al: "allSome (map ?f (as @ k # bs)) = Some pcs"
    using pcs(1) unfolding paramPieces_def split .
  obtain A p B where apb: "pcs = A @ p # B" "map ?f as = map Some A" "?f k = Some p"
      "map ?f bs = map Some B"
    using allSome_split [OF al] by blast
  have "map_option (\<lambda>e. k @ js ''='' @ e) (encodeValue (trim v)) = Some p"
    using apb(3) piece_same [OF wf mem ne ks, of x] by simp
  then obtain e where e: "encodeValue (trim v) = Some e" "p = k @ js ''='' @ e"
    by (cases "encodeValue (trim v)") auto
  have "s = concat (map (\<lambda>a. a @ js ''&'') A) @ (k @ js ''='' @ e) @
              (if B = [] then [] else js ''&'' @ joinWith (js ''&'') B)"
    unfolding pcs(2) apb(1) e(2) by (rule joinWith_split)
  then show ?thesis using apb(2,4) e(1) by blast
qed

theorem changed_value_changes_hashed_string:
  assumes wf: "wfObject params" and mem: "(k, JStr v) \<in> set params"
    and ks: "k \<noteq> js ''signature''" and ne: "v \<noteq> []" and ne': "v' \<noteq> []"
    and diff: "trim v' \<noteq> trim v"
    and s: "signatureString x params pass = Some s"
    and s': "signatureString x (withValue params k v') pass = Some s'"
  shows "s' \<noteq> s \<and>
         generatePayFastSignature x params pass = Inr (md5 x s) \<and>
         generatePayFastSignature x (withValue params k v') pass = Inr (md5 x s')"
proof -
  let ?params' = "withValue params k v'"
  let ?f = "paramPiece x (filteredParams x params)"
  let ?f' = "paramPiece x (filteredParams x ?params')"
  have wf': "wfObject ?params'" using wf by (simp add: wfObject_withValue)
  have mem': "(k, JStr v') \<in> set ?params'" using mem by (rule withValue_mem_same)
  have keys: "sortedKeys x ?params' = sortedKeys x params"
    using wf mem ne ne' by (rule sortedKeys_withValue)
  have "k \<in> set (sortedKeys x params)"
    using wf mem keepParam_nonempty [OF ne ks] by (auto simp: sortedKeys_set)
  then have "\<exists>as bs. sortedKeys x params = as @ k # bs" by (rule split_list)
  then obtain as bs where split: "sortedKeys x params = as @ k # bs" by blast
  have "distinct (as @ k # bs)" using sortedKeys_distinct [OF wf, of x] split by simp
  then have notk: "k \<notin> set as" "k \<notin> set bs" by auto
  have other: "?f' a = ?f a" if "a \<in> set as \<or> a \<in> set bs" for a
  proof -
    have "a \<in> set (sortedKeys x params)" using that split by auto
    moreover have "a \<noteq> k" using that notk by auto
    ultimately show ?thesis using wf by (intro piece_other)
  qed
  have same_as: "map ?f' as = map ?f as"
    by (rule map_cong [OF refl]) (simp add: other)
  have same_bs: "map ?f' bs = map ?f bs"
    by (rule map_cong [OF refl]) (simp add: other)
  obtain ps where ps: "paramString x params = Some ps" "s = ps @ passSuffix pass"
    using signatureString_Some [OF s] by blast
  obtain ps' where ps': "paramString x ?params' = Some ps'" "s' = ps' @ passSuffix pass"
    using signatureString_Some [OF s'] by blast
  obtain A B e where abe: "map ?f as = map Some A" "map ?f bs = map Some B"
      "encodeValue (trim v) = Some e"
      "ps = concat (map (\<lambda>a. a @ js ''&'') A) @ (k @ js ''='' @ e) @
            (if B = [] then [] else js ''&'' @ joinWith (js ''&'') B)"
    using paramString_split [OF wf mem ne ks split ps(1)] by blast
  have split': "sortedKeys x ?params' = as @ k # bs" using keys split by simp
  obtain A' B' e' where abe': "map ?f' as = map Some A'" "map ?f' bs = map Some B'"
      "encodeValue (trim v') = Some e'"
      "ps' = concat (map (\<lambda>a. a @ js ''&'') A') @ (k @ js ''='' @ e') @
            (if B' = [] then [] else js ''&'' @ joinWith (js ''&'') B')"
    using paramString_split [OF wf' mem' ne' ks split' ps'(1)] by blast
  have AA: "A' = A" using abe(1) abe'(1) same_as by (simp add: map_Some_inj)
  have BB: "B' = B" using abe(2) abe'(2) same_bs by (simp add: map_Some_inj)
  have "s' \<noteq> s"
  proof
    assume "s' = s"
    then have "(concat (map (\<lambda>a. a @ js ''&'') A) @ k @ js ''='') @ e' @
                 ((if B = [] then [] else js ''&'' @ joinWith (js ''&'') B) @ passSuffix pass) =
               (concat (map (\<lambda>a. a @ js ''&'') A) @ k @ js ''='') @ e @
                 ((if B = [] then [] else js ''&'' @ joinWith (js ''&'') B) @ passSuffix pass)"
      unfolding ps(2) ps'(2) abe(4) abe'(4) AA BB by (simp only: append_assoc)
    then have "e' @ ((if B = [] then [] else js ''&'' @ joinWith (js ''&'') B) @ passSuffix pass) =
               e @ ((if B = [] then [] else js ''&'' @ joinWith (js ''&'') B) @ passSuffix pass)"
      by (simp only: same_append_eq)
    then have "e' = e" by (simp only: append_same_eq)
    then have "trim v' = trim v" using abe(3) abe'(3) encodeValue_inj by blast
    then show False using diff by contradiction
  qed
  moreover have "generatePayFastSignature x params pass = Inr (md5 x s)"
    using s by (simp add: generatePayFastSignature_def)
  moreover have "generatePayFastSignature x ?params' pass = Inr (md5 x s')"
    using s' by (simp add: generatePayFastSignature_def)
  ultimately show ?thesis by simp
qed















lemma signature_cong:
  assumes wfa: "wfObject A" and wfb: "wfObject B"
    and same: "set (filter (\<lambda>kv. keepParam (fst kv) (snd kv)) A) =
               set (filter (\<lambda>kv. keepParam (fst kv) (snd kv)) B)"
  shows "generatePayFastSignature x A pass = generatePayFastSignature x B pass"
proof -
  have fs: "set (filteredParams x A) = set (filteredParams x B)"
    using same by (simp add: filteredParams_wf [OF wfa] filteredParams_wf [OF wfb])
  have da: "distinct (map fst (filteredParams x A))" using wfa by (rule filteredParams_distinct)
  have db: "distinct (map fst (filteredParams x B))" using wfb by (rule filteredParams_distinct)
  have "set (map fst (filteredParams x A)) = set (map fst (filteredParams x B))"
    using fs by simp
  then have keys: "sortedKeys x A = sortedKeys x B"
    unfolding sortedKeys_def obj_keys_def using da db
    by (intro sorted_distinct_set_unique) simp_all
  have get: "obj_get (filteredParams x A) k = obj_get (filteredParams x B) k" for k
    using da db fs by (rule obj_get_cong)
  have "paramPiece x (filteredParams x A) = paramPiece x (filteredParams x B)"
    by (rule ext) (simp add: paramPiece_def get)
  then have "paramPieces x A = paramPieces x B"
    by (simp add: paramPieces_def keys)
  then show ?thesis
    by (simp add: generatePayFastSignature_def signatureString_def paramString_def)
qed

lemma itnVerifyParams_strings:
  "distinct (map fst ps) \<Longrightarrow> js ''__proto__'' \<notin> fst ` set ps \<Longrightarrow>
   fst ` set acc \<inter> fst ` set ps = {} \<Longrightarrow> \<forall>kv\<in>set ps. \<exists>v. snd kv = JStr v \<Longrightarrow>
   (\<And>k v. (k, v) \<in> set ps \<Longrightarrow> obj_get data k = v) \<Longrightarrow>
   itnVerifyParams x data (map fst ps) acc = Inr (acc @ filter verifiable ps)"
proof (induction ps arbitrary: acc)
  case Nil
  then show ?case by simp
next
  case (Cons p ps)
  obtain k v where p: "p = (k, JStr v)" using Cons.prems(4) by (cases p) auto
  have g: "obj_get data k = JStr v" using Cons.prems(5) p by simp
  have kp: "k \<noteq> js ''__proto__''" using Cons.prems(2) p by auto
  have fresh: "k \<notin> fst ` set acc" using Cons.prems(3) p by auto
  show ?case
  proof (cases "verifiable p")
    case True
    let ?acc' = "acc @ [(k, JStr v)]"
    have disj: "fst ` set ?acc' \<inter> fst ` set ps = {}"
      using Cons.prems(1,3) p by auto
    have "itnVerifyParams x data (map fst ps) ?acc' = Inr (?acc' @ filter verifiable ps)"
      using Cons.prems disj by (intro Cons.IH) auto
    moreover have "k \<noteq> js ''signature''" "v \<noteq> []"
      using True p by (simp_all add: verifiable_def)
    moreover have "verifiable (k, JStr v)" using True p by simp
    ultimately show ?thesis
      using g kp fresh p by (simp add: obj_set_def obj_put_fresh)
  next
    case False
    have disj: "fst ` set acc \<inter> fst ` set ps = {}" using Cons.prems(3) by auto
    have "itnVerifyParams x data (map fst ps) acc = Inr (acc @ filter verifiable ps)"
      using Cons.prems disj by (intro Cons.IH) auto
    moreover have "\<not> (k \<noteq> js ''signature'' \<and> obj_get data k \<noteq> JStr [])"
      using False p g by (simp add: verifiable_def)
    moreover have "\<not> verifiable (k, JStr v)" using False p by simp
    ultimately show ?thesis using p by auto
  qed
qed

lemma obj_put_keys: "fst ` set (obj_put ob k v) = insert k (fst ` set ob)"
  by (induction ob) auto

lemma obj_put_distinct: "distinct (map fst ob) \<Longrightarrow> distinct (map fst (obj_put ob k v))"
  by (induction ob) (auto simp: obj_put_keys)

lemma obj_put_same: "distinct (map fst ob) \<Longrightarrow> (k, v) \<in> set ob \<Longrightarrow> obj_put ob k v = ob"
  by (induction ob) (auto simp: rev_image_eqI)

lemma obj_get_put_other: "k' \<noteq> k \<Longrightarrow> obj_get (obj_put ob k v) k' = obj_get ob k'"
  by (induction ob) (auto simp: obj_get_def)




lemma filter_verifiable_put:
  "filter verifiable (obj_put ob (js ''signature'') v) = filter verifiable ob"
  by (induction ob) (auto simp: verifiable_def)

lemma obj_put_strings:
  "\<forall>kv\<in>set ob. \<exists>v. snd kv = JStr v \<Longrightarrow> \<forall>kv\<in>set (obj_put ob k (JStr w)). \<exists>v. snd kv = JStr v"
  by (induction ob) auto

lemma keep_verifiable: "keepParam (fst kv) (snd kv) \<Longrightarrow> verifiable kv"
  by (simp add: keepParam_def verifiable_def)

lemma filter_keep_verifiable:
  "filter (\<lambda>kv. keepParam (fst kv) (snd kv)) (filter verifiable ob) =
   filter (\<lambda>kv. keepParam (fst kv) (snd kv)) ob"
  using keep_verifiable by (induction ob) auto

lemma kept_put_merchant_key:
  assumes d: "distinct (map fst V)"
    and c: "(k, JStr w) \<in> set V \<or> (w = [] \<and> k \<notin> fst ` set V)"
  shows "set (filter (\<lambda>kv. keepParam (fst kv) (snd kv)) (obj_put V k (JStr w))) =
         set (filter (\<lambda>kv. keepParam (fst kv) (snd kv)) V)"
proof (cases "(k, JStr w) \<in> set V")
  case True
  then show ?thesis using d by (simp add: obj_put_same)
next
  case False
  then have "w = []" "k \<notin> fst ` set V" using c by auto
  then show ?thesis by (simp add: obj_put_fresh keepParam_def)
qed

lemma itn_expected_general:
  assumes wf: "wfObject P"
    and strs: "\<forall>kv\<in>set P. \<exists>v. snd kv = JStr v"
  shows "itnExpectedSignature x cfg (obj_set P (js ''signature'') (JStr sg)) =
           generatePayFastSignature x
             (obj_put (filter verifiable P) (js ''merchant_key'') (JStr (itnMerchantKey cfg P)))
             (itnPassphrase cfg P) \<and>
         obj_get (obj_set P (js ''signature'') (JStr sg)) (js ''signature'') = JStr sg \<and>
         wfObject (obj_put (filter verifiable P) (js ''merchant_key'')
                     (JStr (itnMerchantKey cfg P)))"
proof -
  let ?sig = "js ''signature''"
  let ?mk = "js ''merchant_key''"
  let ?data = "obj_put P ?sig (JStr sg)"
  let ?V = "filter verifiable P"
  let ?K = "itnMerchantKey cfg P"
  have sp: "?sig \<noteq> js ''__proto__''" "?mk \<noteq> js ''__proto__''" "js ''merchant_id'' \<noteq> ?sig"
    by (simp_all add: js_def)
  have data: "obj_set P ?sig (JStr sg) = ?data" using sp(1) by (simp add: obj_set_def)
  have dd: "distinct (map fst ?data)" using wf by (simp add: wfObject_def obj_put_distinct)
  have dp: "js ''__proto__'' \<notin> fst ` set ?data"
    using wf sp(1) by (auto simp: wfObject_def obj_put_keys)
  have ds: "\<forall>kv\<in>set ?data. \<exists>v. snd kv = JStr v" using strs by (rule obj_put_strings)
  have "itnVerifyParams x ?data (map fst ?data) [] = Inr ([] @ filter verifiable ?data)"
    using dd dp ds by (intro itnVerifyParams_strings) (auto simp: obj_get_def)
  then have vp: "itnVerifyParams x ?data (obj_keys ?data) [] = Inr ?V"
    by (simp add: obj_keys_def filter_verifiable_put)
  have mid: "obj_get ?data (js ''merchant_id'') = obj_get P (js ''merchant_id'')"
    using sp(3) by (rule obj_get_put_other)
  have dV: "distinct (map fst ?V)" using wf by (simp add: wfObject_def distinct_map_filter)
  have wfV: "wfObject (obj_put ?V ?mk (JStr ?K))"
    using wf sp(2) dV by (auto simp: wfObject_def obj_put_distinct obj_put_keys)
  have ex: "itnExpectedSignature x cfg ?data =
      generatePayFastSignature x (obj_put ?V ?mk (JStr ?K)) (itnPassphrase cfg P)"
    using vp sp(2)
    by (simp add: itnExpectedSignature_def mid itnMerchantKey_def itnPassphrase_def obj_set_def
          Let_def)
  have "obj_get ?data ?sig = JStr sg"
    by (induction P) (auto simp: obj_get_def)
  then show ?thesis unfolding data using ex wfV by simp
qed

lemma itn_expected_signed:
  assumes wf: "wfObject params"
    and strs: "\<forall>kv\<in>set params. \<exists>v. snd kv = JStr v"
    and mk: "(js ''merchant_key'', JStr (itnMerchantKey cfg params)) \<in> set params"
  shows "itnExpectedSignature x cfg (obj_set params (js ''signature'') (JStr sg)) =
           generatePayFastSignature x params (itnPassphrase cfg params) \<and>
         obj_get (obj_set params (js ''signature'') (JStr sg)) (js ''signature'') = JStr sg"
proof -
  let ?mk = "js ''merchant_key''"
  let ?V = "filter verifiable params"
  let ?K = "itnMerchantKey cfg params"
  note G = itn_expected_general [OF wf strs, of x cfg sg]
  have wfV: "wfObject (obj_put ?V ?mk (JStr ?K))" using G by simp
  have ms: "?mk \<noteq> js ''signature''" by (simp add: js_def)
  have dV: "distinct (map fst ?V)" using wf by (simp add: wfObject_def distinct_map_filter)
  have c: "(?mk, JStr ?K) \<in> set ?V \<or> (?K = [] \<and> ?mk \<notin> fst ` set ?V)"
  proof (cases "?K = []")
    case True
    have "?mk \<notin> fst ` set ?V"
    proof
      assume "?mk \<in> fst ` set ?V"
      then obtain u where u: "(?mk, u) \<in> set params" "verifiable (?mk, u)" by auto
      have "u = JStr ?K" using wf mk u(1) by (auto simp: wfObject_def dest: eq_key_imp_eq_value)
      then show False using u(2) True by (simp add: verifiable_def)
    qed
    then show ?thesis using True by simp
  next
    case False
    then show ?thesis using mk ms by (simp add: verifiable_def)
  qed
  have "set (filter (\<lambda>kv. keepParam (fst kv) (snd kv)) (obj_put ?V ?mk (JStr ?K))) =
        set (filter (\<lambda>kv. keepParam (fst kv) (snd kv)) ?V)"
    using dV c by (rule kept_put_merchant_key)
  then have same: "set (filter (\<lambda>kv. keepParam (fst kv) (snd kv)) (obj_put ?V ?mk (JStr ?K))) =
        set (filter (\<lambda>kv. keepParam (fst kv) (snd kv)) params)"
    by (simp only: filter_keep_verifiable)
  have "generatePayFastSignature x (obj_put ?V ?mk (JStr ?K)) (itnPassphrase cfg params) =
        generatePayFastSignature x params (itnPassphrase cfg params)"
    using wfV wf same by (rule signature_cong)
  then show ?thesis using G by simp
qed

lemma itn_verifies_iff:
  assumes wf: "wfObject params"
    and strs: "\<forall>kv\<in>set params. \<exists>v. snd kv = JStr v"
    and mk: "(js ''merchant_key'', JStr (itnMerchantKey cfg params)) \<in> set params"
  shows "itnSignatureVerifies x cfg (obj_set params (js ''signature'') (JStr sg)) \<longleftrightarrow>
         generatePayFastSignature x params (itnPassphrase cfg params) = Inr sg"
  using itn_expected_signed [OF wf strs mk, of x sg]
  by (cases "generatePayFastSignature x params (itnPassphrase cfg params)")
     (auto simp: itnSignatureVerifies_def)

lemma withValue_strings:
  "\<forall>kv\<in>set params. \<exists>v. snd kv = JStr v \<Longrightarrow> \<forall>kv\<in>set (withValue params k v'). \<exists>v. snd kv = JStr v"
  by (auto simp: withValue_def)


lemma changed_payload_verification:
  assumes wf: "wfObject params"
    and strs: "\<forall>kv\<in>set params. \<exists>v. snd kv = JStr v"
    and mk: "(js ''merchant_key'', JStr (itnMerchantKey cfg params)) \<in> set params"
    and s: "signatureString x params (itnPassphrase cfg params) = Some s"
    and mem: "(k, JStr v) \<in> set params"
    and ks: "k \<noteq> js ''signature''" and kmk: "k \<noteq> js ''merchant_key''"
    and ne: "v \<noteq> []" and ne': "v' \<noteq> []" and diff: "trim v' \<noteq> trim v"
    and sameK: "itnMerchantKey cfg (withValue params k v') = itnMerchantKey cfg params"
    and sameP: "itnPassphrase cfg (withValue params k v') = itnPassphrase cfg params"
  shows "itnSignatureVerifies x cfg
           (obj_set (withValue params k v') (js ''signature'') (JStr (md5 x s))) \<longleftrightarrow>
         (\<exists>s'. signatureString x (withValue params k v') (itnPassphrase cfg params) = Some s' \<and>
               s' \<noteq> s \<and> md5 x s' = md5 x s)"
proof -
  let ?params' = "withValue params k v'"
  let ?pass = "itnPassphrase cfg params"
  have wf': "wfObject ?params'" using wf by (simp add: wfObject_withValue)
  have strs': "\<forall>kv\<in>set ?params'. \<exists>v. snd kv = JStr v" using strs by (rule withValue_strings)
  have mk': "(js ''merchant_key'', JStr (itnMerchantKey cfg ?params')) \<in> set ?params'"
    using mk kmk by (simp add: sameK withValue_mem_other)
  have iff: "itnSignatureVerifies x cfg (obj_set ?params' (js ''signature'') (JStr (md5 x s))) \<longleftrightarrow>
        generatePayFastSignature x ?params' ?pass = Inr (md5 x s)"
    using itn_verifies_iff [OF wf' strs' mk', of x "md5 x s"] by (simp add: sameP)
  show ?thesis
  proof (cases "signatureString x ?params' ?pass")
    case None
    then show ?thesis using iff by (simp add: generatePayFastSignature_def)
  next
    case (Some s')
    have "s' \<noteq> s"
      using changed_value_changes_hashed_string [OF wf mem ks ne ne' diff s Some] by simp
    then show ?thesis using iff Some by (simp add: generatePayFastSignature_def)
  qed
qed





section \<open>Signing and verifying a notification\<close>




section \<open>A field with the value 0\<close>

lemma joinWith_longer:
  "p \<noteq> [] \<Longrightarrow> length (joinWith sep (A @ B)) < length (joinWith sep (A @ p # B))"
proof (induction A)
  case Nil
  then show ?case by (simp add: joinWith_Cons)
next
  case (Cons a A)
  then show ?case by (cases "A @ B = []") (simp_all add: joinWith_Cons)
qed

lemma wfObject_withoutField: "wfObject params \<Longrightarrow> wfObject (withoutField params k)"
  by (auto simp: wfObject_def withoutField_def distinct_map_filter)

lemma sortedKeys_withoutField:
  assumes wf: "wfObject params" and split: "sortedKeys x params = as @ k # bs"
  shows "sortedKeys x (withoutField params k) = as @ bs"
proof -
  have d: "distinct (as @ k # bs)" using sortedKeys_distinct [OF wf, of x] split by simp
  have st: "sorted (as @ k # bs)" using sortedKeys_sorted [of x params] split by simp
  have wf': "wfObject (withoutField params k)" using wf by (rule wfObject_withoutField)
  have "set (sortedKeys x (withoutField params k)) = set (sortedKeys x params) - {k}"
    unfolding sortedKeys_set [OF wf'] sortedKeys_set [OF wf]
    by (auto simp: withoutField_def)
  also have "\<dots> = set (as @ bs)" using d split by auto
  finally have s: "set (sortedKeys x (withoutField params k)) = set (as @ bs)" .
  have "sorted (as @ bs)" using st by (auto simp: sorted_append)
  moreover have "distinct (as @ bs)" using d by auto
  ultimately show ?thesis
    using s sortedKeys_sorted [of x "withoutField params k"] sortedKeys_distinct [OF wf', of x]
    by (intro sorted_distinct_set_unique) simp_all
qed

lemma piece_withoutField:
  assumes "wfObject params" and "k' \<in> set (sortedKeys x params)" and "k' \<noteq> k"
  shows "paramPiece x (filteredParams x (withoutField params k)) k' =
         paramPiece x (filteredParams x params) k'"
proof -
  obtain u where u: "(k', u) \<in> set params" "keepParam k' u"
    using assms(1,2) by (auto simp: sortedKeys_set)
  have u': "(k', u) \<in> set (withoutField params k)"
    using u(1) assms(3) by (simp add: withoutField_def)
  have wf': "wfObject (withoutField params k)" using assms(1) by (rule wfObject_withoutField)
  have "obj_get (filteredParams x (withoutField params k)) k' = JStr (trim (js_String x u))"
    using wf' u' u(2) by (rule filtered_get)
  moreover have "obj_get (filteredParams x params) k' = JStr (trim (js_String x u))"
    using assms(1) u by (rule filtered_get)
  ultimately show ?thesis by (simp add: paramPiece_def)
qed

lemma kept_field_in_hashed_string:
  assumes wf: "wfObject params" and mem: "(k, JStr v) \<in> set params" and ne: "v \<noteq> []"
    and ks: "k \<noteq> js ''signature''" and e: "encodeValue (trim v) = Some e"
    and s: "signatureString x params pass = Some s"
  shows "generatePayFastSignature x params pass = Inr (md5 x s) \<and>
         (\<exists>A B. paramPieces x params = Some (A @ (k @ js ''='' @ e) # B) \<and>
                s = joinWith (js ''&'') (A @ (k @ js ''='' @ e) # B) @ passSuffix pass) \<and>
         signatureString x (withoutField params k) pass \<noteq> Some s"
proof -
  let ?f = "paramPiece x (filteredParams x params)"
  let ?wo = "withoutField params k"
  let ?g = "paramPiece x (filteredParams x ?wo)"
  have gen: "generatePayFastSignature x params pass = Inr (md5 x s)"
    using s by (simp add: generatePayFastSignature_def)
  obtain ps where ps: "paramString x params = Some ps" "s = ps @ passSuffix pass"
    using signatureString_Some [OF s] by blast
  obtain pcs where pcs: "paramPieces x params = Some pcs" "ps = joinWith (js ''&'') pcs"
    using ps(1) unfolding paramString_def by (cases "paramPieces x params") auto
  have "k \<in> set (sortedKeys x params)"
    using wf mem keepParam_nonempty [OF ne ks] by (auto simp: sortedKeys_set)
  then have "\<exists>as bs. sortedKeys x params = as @ k # bs" by (rule split_list)
  then obtain as bs where split: "sortedKeys x params = as @ k # bs" by blast
  have al: "allSome (map ?f (as @ k # bs)) = Some pcs"
    using pcs(1) unfolding paramPieces_def split .
  obtain A p B where apb: "pcs = A @ p # B" "map ?f as = map Some A" "?f k = Some p"
      "map ?f bs = map Some B"
    using allSome_split [OF al] by blast
  have p: "p = k @ js ''='' @ e"
    using apb(3) piece_same [OF wf mem ne ks, of x] e by simp
  have join: "paramPieces x params = Some (A @ (k @ js ''='' @ e) # B) \<and>
      s = joinWith (js ''&'') (A @ (k @ js ''='' @ e) # B) @ passSuffix pass"
    using pcs ps(2) apb(1) p by simp
  have "distinct (as @ k # bs)" using sortedKeys_distinct [OF wf, of x] split by simp
  then have notk: "k \<notin> set as" "k \<notin> set bs" by auto
  have other: "?g a = ?f a" if "a \<in> set as \<or> a \<in> set bs" for a
  proof -
    have "a \<in> set (sortedKeys x params)" using that split by auto
    moreover have "a \<noteq> k" using that notk by auto
    ultimately show ?thesis using wf by (intro piece_withoutField)
  qed
  have "map ?g (as @ bs) = map ?f (as @ bs)"
    by (rule map_cong [OF refl]) (auto simp: other)
  then have "map ?g (as @ bs) = map Some (A @ B)" using apb(2,4) by simp
  then have "allSome (map ?g (as @ bs)) = Some (A @ B)" by (simp only: allSome_Some)
  then have wo: "paramPieces x ?wo = Some (A @ B)"
    unfolding paramPieces_def sortedKeys_withoutField [OF wf split] .
  have "signatureString x ?wo pass \<noteq> Some s"
  proof
    assume a: "signatureString x ?wo pass = Some s"
    obtain qs where qs: "paramString x ?wo = Some qs" "s = qs @ passSuffix pass"
      using signatureString_Some [OF a] by blast
    have "qs = joinWith (js ''&'') (A @ B)" using qs(1) wo by (simp add: paramString_def)
    moreover have "qs = ps" using qs(2) ps(2) by simp
    ultimately have "joinWith (js ''&'') (A @ B) = joinWith (js ''&'') (A @ p # B)"
      using pcs(2) apb(1) by simp
    moreover have "p \<noteq> []" using p by (simp add: js_def)
    ultimately show False using joinWith_longer [of p "js ''&''" A B] by simp
  qed
  then show ?thesis using gen join by blast
qed

lemma literal_value_retained:
  assumes wf: "wfObject params" and mem: "(k, JStr w) \<in> set params" and ne: "w \<noteq> []"
    and ks: "k \<noteq> js ''signature''" and tw: "trim w = w" and ew: "encodeValue w = Some w"
  shows "k \<in> set (sortedKeys x params) \<and>
         paramPiece x (filteredParams x params) k = Some (k @ js ''='' @ w) \<and>
         (\<forall>pcs. paramPieces x params = Some pcs \<longrightarrow> k @ js ''='' @ w \<in> set pcs) \<and>
         (\<forall>pass s. signatureString x params pass = Some s \<longrightarrow>
            generatePayFastSignature x params pass = Inr (md5 x s) \<and>
            (\<exists>A B. paramPieces x params = Some (A @ (k @ js ''='' @ w) # B) \<and>
                   s = joinWith (js ''&'') (A @ (k @ js ''='' @ w) # B) @ passSuffix pass) \<and>
            signatureString x (withoutField params k) pass \<noteq> Some s)"
proof -
  have e: "encodeValue (trim w) = Some w" using tw ew by simp
  have "k \<in> set (sortedKeys x params) \<and>
        paramPiece x (filteredParams x params) k = Some (k @ js ''='' @ w) \<and>
        (\<forall>pcs. paramPieces x params = Some pcs \<longrightarrow> k @ js ''='' @ w \<in> set pcs)"
    using wf mem ne ks tw ew by (rule piece_of_kept)
  moreover have "\<forall>pass s. signatureString x params pass = Some s \<longrightarrow>
            generatePayFastSignature x params pass = Inr (md5 x s) \<and>
            (\<exists>A B. paramPieces x params = Some (A @ (k @ js ''='' @ w) # B) \<and>
                   s = joinWith (js ''&'') (A @ (k @ js ''='' @ w) # B) @ passSuffix pass) \<and>
            signatureString x (withoutField params k) pass \<noteq> Some s"
    using kept_field_in_hashed_string [OF wf mem ne ks e] by blast
  ultimately show ?thesis by blast
qed

text \<open>
  C9: the keys that are sorted and encoded are exactly the keys of the fields whose value
  is not the empty string, \<open>null\<close> or \<open>undefined\<close> and whose name is not \<open>signature\<close>. A
  field with the value \<open>"0"\<close> (or \<open>"false"\<close>) is kept: its piece \<open>key=0\<close> is one of the pieces
  that are joined into the string that is hashed. Whenever the function hashes a string
  \<open>s\<close>, the signature is the digest of \<open>s\<close>, \<open>s\<close> is the pieces joined by \<open>&\<close>, the piece
  \<open>key=0\<close> among them, followed by the passphrase part, and \<open>s\<close> is not the string that is
  hashed for the parameters without the field: the field contributes to the digest. (The
  parameter objects are well-formed: built by an object literal or by assignments, with
  distinct keys, none \<open>__proto__\<close>.)
\<close>

theorem zero_value_retained:
  assumes "wfObject params"
  shows "(\<forall>k. k \<in> set (sortedKeys x params) \<longleftrightarrow>
            (\<exists>v. (k, v) \<in> set params \<and> v \<noteq> JStr [] \<and> v \<noteq> JNull \<and> v \<noteq> JUndefined \<and>
                 k \<noteq> js ''signature'')) \<and>
         (\<forall>k. (k, JStr (js ''0'')) \<in> set params \<and> k \<noteq> js ''signature'' \<longrightarrow>
            k \<in> set (sortedKeys x params) \<and>
            paramPiece x (filteredParams x params) k = Some (k @ js ''=0'') \<and>
            (\<forall>pcs. paramPieces x params = Some pcs \<longrightarrow> k @ js ''=0'' \<in> set pcs) \<and>
            (\<forall>pass s. signatureString x params pass = Some s \<longrightarrow>
               generatePayFastSignature x params pass = Inr (md5 x s) \<and>
               (\<exists>A B. paramPieces x params = Some (A @ (k @ js ''=0'') # B) \<and>
                      s = joinWith (js ''&'') (A @ (k @ js ''=0'') # B) @ passSuffix pass) \<and>
               signatureString x (withoutField params k) pass \<noteq> Some s)) \<and>
         (\<forall>k. (k, JStr (js ''false'')) \<in> set params \<and> k \<noteq> js ''signature'' \<longrightarrow>
            k \<in> set (sortedKeys x params) \<and>
            paramPiece x (filteredParams x params) k = Some (k @ js ''=false'') \<and>
            (\<forall>pcs. paramPieces x params = Some pcs \<longrightarrow> k @ js ''=false'' \<in> set pcs) \<and>
            (\<forall>pass s. signatureString x params pass = Some s \<longrightarrow>
               generatePayFastSignature x params pass = Inr (md5 x s) \<and>
               (\<exists>A B. paramPieces x params = Some (A @ (k @ js ''=false'') # B) \<and>
                      s = joinWith (js ''&'') (A @ (k @ js ''=false'') # B) @ passSuffix pass) \<and>
               signatureString x (withoutField params k) pass \<noteq> Some s))"
proof (intro conjI allI)
  fix k
  show "k \<in> set (sortedKeys x params) \<longleftrightarrow>
          (\<exists>v. (k, v) \<in> set params \<and> v \<noteq> JStr [] \<and> v \<noteq> JNull \<and> v \<noteq> JUndefined \<and>
               k \<noteq> js ''signature'')"
    using assms by (simp add: sortedKeys_set keepParam_def)
next
  fix k
  have eq: "js ''='' @ js ''0'' = js ''=0''" by (simp add: js_def)
  have ne: "js ''0'' \<noteq> []" by (simp add: js_def)
  show "(k, JStr (js ''0'')) \<in> set params \<and> k \<noteq> js ''signature'' \<longrightarrow>
            k \<in> set (sortedKeys x params) \<and>
            paramPiece x (filteredParams x params) k = Some (k @ js ''=0'') \<and>
            (\<forall>pcs. paramPieces x params = Some pcs \<longrightarrow> k @ js ''=0'' \<in> set pcs) \<and>
            (\<forall>pass s. signatureString x params pass = Some s \<longrightarrow>
               generatePayFastSignature x params pass = Inr (md5 x s) \<and>
               (\<exists>A B. paramPieces x params = Some (A @ (k @ js ''=0'') # B) \<and>
                      s = joinWith (js ''&'') (A @ (k @ js ''=0'') # B) @ passSuffix pass) \<and>
               signatureString x (withoutField params k) pass \<noteq> Some s)"
  proof
    assume a: "(k, JStr (js ''0'')) \<in> set params \<and> k \<noteq> js ''signature''"
    show "k \<in> set (sortedKeys x params) \<and>
            paramPiece x (filteredParams x params) k = Some (k @ js ''=0'') \<and>
            (\<forall>pcs. paramPieces x params = Some pcs \<longrightarrow> k @ js ''=0'' \<in> set pcs) \<and>
            (\<forall>pass s. signatureString x params pass = Some s \<longrightarrow>
               generatePayFastSignature x params pass = Inr (md5 x s) \<and>
               (\<exists>A B. paramPieces x params = Some (A @ (k @ js ''=0'') # B) \<and>
                      s = joinWith (js ''&'') (A @ (k @ js ''=0'') # B) @ passSuffix pass) \<and>
               signatureString x (withoutField params k) pass \<noteq> Some s)"
      using literal_value_retained [OF assms conjunct1 [OF a] ne conjunct2 [OF a] trim_zero
          encodeValue_zero, of x]
      unfolding eq .
  qed
next
  fix k
  have eq: "js ''='' @ js ''false'' = js ''=false''" by (simp add: js_def)
  have ne: "js ''false'' \<noteq> []" by (simp add: js_def)
  show "(k, JStr (js ''false'')) \<in> set params \<and> k \<noteq> js ''signature'' \<longrightarrow>
            k \<in> set (sortedKeys x params) \<and>
            paramPiece x (filteredParams x params) k = Some (k @ js ''=false'') \<and>
            (\<forall>pcs. paramPieces x params = Some pcs \<longrightarrow> k @ js ''=false'' \<in> set pcs) \<and>
            (\<forall>pass s. signatureString x params pass = Some s \<longrightarrow>
               generatePayFastSignature x params pass = Inr (md5 x s) \<and>
               (\<exists>A B. paramPieces x params = Some (A @ (k @ js ''=false'') # B) \<and>
                      s = joinWith (js ''&'') (A @ (k @ js ''=false'') # B) @ passSuffix pass) \<and>
               signatureString x (withoutField params k) pass \<noteq> Some s)"
  proof
    assume a: "(k, JStr (js ''false'')) \<in> set params \<and> k \<noteq> js ''signature''"
    show "k \<in> set (sortedKeys x params) \<and>
            paramPiece x (filteredParams x params) k = Some (k @ js ''=false'') \<and>
            (\<forall>pcs. paramPieces x params = Some pcs \<longrightarrow> k @ js ''=false'' \<in> set pcs) \<and>
            (\<forall>pass s. signatureString x params pass = Some s \<longrightarrow>
               generatePayFastSignature x params pass = Inr (md5 x s) \<and>
               (\<exists>A B. paramPieces x params = Some (A @ (k @ js ''=false'') # B) \<and>
                      s = joinWith (js ''&'') (A @ (k @ js ''=false'') # B) @ passSuffix pass) \<and>
               signatureString x (withoutField params k) pass \<noteq> Some s)"
      using literal_value_retained [OF assms conjunct1 [OF a] ne conjunct2 [OF a] trim_false
          encodeValue_false, of x]
      unfolding eq .
  qed
qed

theorem zero_value_retained_witness:
  "sortedKeys sampleExt
     [(js ''b'', JStr (js ''1'')), (js ''a'', JStr (js ''0'')), (js ''c'', JStr []),
      (js ''signature'', JStr (js ''x''))] = [js ''a'', js ''b''] \<and>
   paramPieces sampleExt
     [(js ''b'', JStr (js ''1'')), (js ''a'', JStr (js ''0'')), (js ''c'', JStr []),
      (js ''signature'', JStr (js ''x''))] = Some [js ''a=0'', js ''b=1''] \<and>
   signatureString sampleExt
     [(js ''b'', JStr (js ''1'')), (js ''a'', JStr (js ''0'')), (js ''c'', JStr []),
      (js ''signature'', JStr (js ''x''))] (Some (js ''p'')) =
     Some (js ''a=0&b=1&passphrase=p'') \<and>
   generatePayFastSignature sampleExt
     [(js ''b'', JStr (js ''1'')), (js ''a'', JStr (js ''0'')), (js ''c'', JStr []),
      (js ''signature'', JStr (js ''x''))] (Some (js ''p'')) =
     Inr (js ''a=0&b=1&passphrase=p'') \<and>
   signatureString sampleExt
     (withoutField
        [(js ''b'', JStr (js ''1'')), (js ''a'', JStr (js ''0'')), (js ''c'', JStr []),
         (js ''signature'', JStr (js ''x''))] (js ''a'')) (Some (js ''p'')) \<noteq>
     Some (js ''a=0&b=1&passphrase=p'')"
proof -
  let ?ps = "[(js ''b'', JStr (js ''1'')), (js ''a'', JStr (js ''0'')), (js ''c'', JStr []),
              (js ''signature'', JStr (js ''x''))]"
  let ?S = "js ''a=0&b=1&passphrase=p''"
  have wf: "wfObject ?ps" by (simp add: wfObject_def js_def)
  have m: "(js ''a'', JStr (js ''0'')) \<in> set ?ps \<and> js ''a'' \<noteq> js ''signature''"
    by (simp add: js_def)
  have pcs: "paramPieces sampleExt ?ps = Some [js ''a=0'', js ''b=1'']"
    by (simp add: codec_eval)
  have keys: "sortedKeys sampleExt ?ps = [js ''a'', js ''b'']" by (simp add: codec_eval)
  have s: "signatureString sampleExt ?ps (Some (js ''p'')) = Some ?S" by (simp add: codec_eval)
  have "js ''a'' \<in> set (sortedKeys sampleExt ?ps) \<and> js ''a'' @ js ''=0'' \<in> set [js ''a=0'', js ''b=1''] \<and>
        generatePayFastSignature sampleExt ?ps (Some (js ''p'')) = Inr (md5 sampleExt ?S) \<and>
        signatureString sampleExt (withoutField ?ps (js ''a'')) (Some (js ''p'')) \<noteq> Some ?S"
    using zero_value_retained [OF wf, of sampleExt] m pcs s by blast
  then show ?thesis using keys pcs s by (simp add: sampleExt_def)
qed

end
